theory Spec2Isabelle
  imports Complex_Main "HOL-Library.Word"
begin

section \<open>Serene AI: the audio decode-and-playback pipeline and its orchestration\<close>

text \<open>
  The development has two parts. The helpers \<open>decode\<close> and \<open>decodeAudioData\<close> are
  imported by \<open>App.tsx\<close> from \<open>./utils/audioUtils\<close>, a module whose text is not part
  of the sources at hand; they are modelled from the specification (sections 4.1 and 4.2).
  The component state, \<open>handleSendMessage\<close>, \<open>handlePlayPause\<close>, the mount effect and
  the three service functions are translated from \<open>App.tsx\<close> and \<open>geminiService\<close>.
\<close>

subsection \<open>Binary decoder (specification 4.1)\<close>

type_synonym byte = "8 word"

text \<open>
  Modelled from the spec: the error of the decoder, \<open>MalformedEncodingError\<close>, is named in
  sections 4.1 and 7; no declaration of it is in the sources.
\<close>

datatype DecodeError = MalformedEncodingError

text \<open>
  Modelled from the spec: the alphabet and the padding character of the standard base64
  encoding that section 4.1 refers to; the decoder's module is missing from the sources.
  \<open>sextet\<close> is the six-bit value of a character of the alphabet, \<open>None\<close> outside it,
  and \<open>digit\<close> is the character of a six-bit value.
\<close>

definition alphabet :: string where
  "alphabet = ''ABCDEFGHIJKLMNOPQRSTUVWXYZabcdefghijklmnopqrstuvwxyz0123456789+/''"

definition pad :: char where
  "pad = CHR ''=''"

fun index_of :: "'a \<Rightarrow> 'a list \<Rightarrow> nat option" where
  "index_of x [] = None"
| "index_of x (y # ys) =
     (if x = y then Some 0 else map_option Suc (index_of x ys))"

definition sextet :: "char \<Rightarrow> nat option" where
  "sextet c = index_of c alphabet"

definition digit :: "nat \<Rightarrow> char" where
  "digit n = alphabet ! (n mod 64)"

text \<open>
  Modelled from the spec: the three bytes that four six-bit values pack in standard
  base64, first to last; part of the missing decoder.
\<close>

definition byte1 :: "nat \<Rightarrow> nat \<Rightarrow> byte" where
  "byte1 x y = of_nat (x * 4 + y div 16)"

definition byte2 :: "nat \<Rightarrow> nat \<Rightarrow> byte" where
  "byte2 y z = of_nat ((y mod 16) * 16 + z div 4)"

definition byte3 :: "nat \<Rightarrow> nat \<Rightarrow> byte" where
  "byte3 z w = of_nat ((z mod 4) * 64 + w)"

text \<open>
  Modelled from the spec: \<open>decode\<close> of \<open>utils/audioUtils\<close> is missing from the sources.
  Section 4.1 gives its contract: the input is a standard base64 string, the output is the
  exact decoded byte sequence in order, and the call fails with \<open>MalformedEncodingError\<close>
  on a character outside the base64 alphabet or on invalid padding. The text is read four
  characters at a time; only the last group may end in one or two padding characters.
\<close>

fun decode :: "string \<Rightarrow> DecodeError + byte list" where
  "decode [] = Inr []"
| "decode (a # b # c # d # rest) =
     (case (sextet a, sextet b) of
        (Some x, Some y) \<Rightarrow>
          (if rest = [] \<and> c = pad \<and> d = pad then Inr [byte1 x y]
           else (case sextet c of
                   None \<Rightarrow> Inl MalformedEncodingError
                 | Some z \<Rightarrow>
                     (if rest = [] \<and> d = pad then Inr [byte1 x y, byte2 y z]
                      else (case sextet d of
                              None \<Rightarrow> Inl MalformedEncodingError
                            | Some w \<Rightarrow>
                                (case decode rest of
                                   Inl e \<Rightarrow> Inl e
                                 | Inr bs \<Rightarrow> Inr (byte1 x y # byte2 y z # byte3 z w # bs))))))
      | _ \<Rightarrow> Inl MalformedEncodingError)"
| "decode _ = Inl MalformedEncodingError"

text \<open>
  Modelled from the spec: \<open>encode\<close> occurs only in the round-trip property of section 8;
  the repository has no encoder. It is the standard base64 encoding with padding, the
  inverse that section 4.1 presupposes.
\<close>

fun encode :: "byte list \<Rightarrow> string" where
  "encode [] = []"
| "encode [a] =
     [digit (unat a div 4), digit ((unat a mod 4) * 16), pad, pad]"
| "encode [a, b] =
     [digit (unat a div 4), digit ((unat a mod 4) * 16 + unat b div 16),
      digit ((unat b mod 16) * 4), pad]"
| "encode (a # b # c # rest) =
     digit (unat a div 4) # digit ((unat a mod 4) * 16 + unat b div 16) #
     digit ((unat b mod 16) * 4 + unat c div 64) # digit (unat c mod 64) # encode rest"

text \<open>
  Modelled from the spec: the inputs that section 4.1 does not reject. No character is
  outside the base64 alphabet (every character before the padding is in it) and the
  padding is valid (at most two \<open>=\<close>, at the very end, filling the length to a multiple
  of four).
\<close>

definition in_alphabet :: "char \<Rightarrow> bool" where
  "in_alphabet c = (c \<in> set alphabet)"

definition valid_base64 :: "string \<Rightarrow> bool" where
  "valid_base64 s =
     (let body = takeWhile (\<lambda>c. c \<noteq> pad) s;
          padding = dropWhile (\<lambda>c. c \<noteq> pad) s
      in list_all in_alphabet body \<and>
         (padding = [] \<or> padding = [pad] \<or> padding = [pad, pad]) \<and>
         length s mod 4 = 0)"

text \<open>
  Modelled from the spec: the exact decoded byte sequence of section 4.1, as standard
  base64 defines it and independently of the decoder above. Every character before the
  padding stands for six bits, most significant first; the bits of all characters are
  laid end to end and cut into bytes of eight bits, first to last; bits left over at the
  end are dropped.
\<close>

fun bits :: "nat \<Rightarrow> nat \<Rightarrow> bool list" where
  "bits 0 n = []"
| "bits (Suc k) n = bits k (n div 2) @ [odd n]"

definition bits_value :: "bool list \<Rightarrow> nat" where
  "bits_value bs = foldl (\<lambda>a b. 2 * a + (if b then 1 else 0)) 0 bs"

fun octets :: "bool list \<Rightarrow> byte list" where
  "octets (b7 # b6 # b5 # b4 # b3 # b2 # b1 # b0 # rest) =
     of_nat (bits_value [b7, b6, b5, b4, b3, b2, b1, b0]) # octets rest"
| "octets _ = []"

definition decoded_bytes :: "string \<Rightarrow> byte list" where
  "decoded_bytes s =
     octets (concat (map (\<lambda>c. case sextet c of None \<Rightarrow> [] | Some n \<Rightarrow> bits 6 n)
                      (takeWhile (\<lambda>c. c \<noteq> pad) s)))"

subsection \<open>PCM to audio buffer converter (specification 4.2)\<close>

text \<open>
  Modelled from the spec: the \<open>AudioBuffer\<close> of section 3, a sample rate, a channel
  count, a number of frames (the \<open>length\<close> of the buffer) and one sequence of samples for
  each channel. It is a type of the browser, not of the sources.
\<close>

record AudioBuffer =
  sampleRate :: nat
  numberOfChannels :: nat
  frameCount :: nat
  channelData :: "rat list list"

text \<open>
  Modelled from the spec: the sample reconstruction of section 4.2, part of the missing
  converter. A signed 16-bit little-endian sample is the low byte plus the high byte
  shifted left by eight, read as two's complement.
\<close>

definition int16_le :: "byte \<Rightarrow> byte \<Rightarrow> 16 word" where
  "int16_le lo hi = ucast lo + push_bit 8 (ucast hi)"

text \<open>
  Modelled from the spec: the normalization of section 4.2, division by 32768.0. Every quotient of a 16-bit integer by \<open>2 ^ 15\<close> is a binary
  fraction with at most 16 significant bits, so the floating-point division is exact and
  the sample is the rational number itself.
\<close>

definition normalize_sample :: "16 word \<Rightarrow> rat" where
  "normalize_sample w = of_int (sint w) / 32768"

text \<open>
  Modelled from the spec: the consecutive byte pairs of the buffer as samples; a last byte
  without a partner belongs to no sample.
\<close>

fun int16_samples :: "byte list \<Rightarrow> 16 word list" where
  "int16_samples (lo # hi # rest) = int16_le lo hi # int16_samples rest"
| "int16_samples _ = []"

text \<open>
  Modelled from the spec: \<open>decodeAudioData\<close> of \<open>utils/audioUtils\<close> is missing from the
  sources. Section 4.2 gives its contract
  \<open>decodeAudioData(bytes, sampleRate, channelCount)\<close>: consecutive byte pairs are the
  interleaved 16-bit samples, a frame is one sample for each channel, a trailing incomplete
  frame is dropped by truncating division, and channel \<open>c\<close> receives the samples
  \<open>c, c + channelCount, c + 2 * channelCount, ...\<close> of the stream, each normalized by
  32768. The audio context that \<open>App.tsx\<close> passes as second argument is not part of the
  contract and has no part in the result.
\<close>

definition decodeAudioData :: "byte list \<Rightarrow> nat \<Rightarrow> nat \<Rightarrow> AudioBuffer" where
  "decodeAudioData bytes rate channelCount =
     (let dataInt16 = int16_samples bytes;
          frames = length dataInt16 div channelCount
      in \<lparr> sampleRate = rate,
           numberOfChannels = channelCount,
           frameCount = frames,
           channelData =
             map (\<lambda>channel.
                    map (\<lambda>i. normalize_sample (dataInt16 ! (i * channelCount + channel)))
                      [0 ..< frames])
               [0 ..< channelCount] \<rparr>)"

subsection \<open>Types of \<open>types.ts\<close> and of the component state\<close>

datatype Role = User | Model

record ChatMessage =
  role :: Role
  content :: string

record LoadingState =
  script :: bool
  image' :: bool
  audio :: bool

datatype Chat = GeminiChat

text \<open>
  Objects of the Web Audio API are identified by their order of creation: a context by its
  number, a source node by its position in the list of all source nodes created so far.
  A source node is \<open>playing\<close> from \<open>start()\<close> until \<open>stop()\<close> or the end of its buffer;
  \<open>ended\<close> records that its \<open>ended\<close> event has been delivered.
\<close>

record AudioContext =
  contextId :: nat
  contextSampleRate :: nat

record AudioBufferSourceNode =
  buffer :: AudioBuffer
  playing :: bool
  ended :: bool

datatype ProviderCall =
    SendMessage string
  | GenerateImagePrompt string
  | GenerateMeditationImage string
  | GenerateMeditationAudio string

datatype AudioCall = Start nat | Stop nat

text \<open>The awaits of \<open>handleSendMessage\<close>, lines 64, 74, 76, 83 and 86.\<close>

datatype Await =
    AwaitSendMessage
  | AwaitImagePrompt
  | AwaitMeditationImage
  | AwaitAudio
  | AwaitDecodeAudioData "byte list"

text \<open>
  The state of \<open>App\<close>: the seven \<open>useState\<close> cells and the two refs of lines 12 to 21,
  followed by the environment they act on: the module variable \<open>ai\<close> of the service, the
  audio source nodes, the number of audio contexts constructed, the calls made to the
  provider layer and to the source nodes, and the invocations of \<open>handleSendMessage\<close>
  that are suspended at an await, oldest first.
\<close>

record State =
  chat :: "Chat option"
  messages :: "ChatMessage list"
  userInput :: string
  loading :: LoadingState
  imageUrl :: string
  audioBuffer :: "AudioBuffer option"
  isPlaying :: bool
  audioContextRef :: "AudioContext option"
  audioSourceRef :: "nat option"
  serviceAi :: bool
  sources :: "AudioBufferSourceNode list"
  contextsCreated :: nat
  calls :: "ProviderCall list"
  audioLog :: "AudioCall list"
  pending :: "Await list"

definition initialState :: "bool \<Rightarrow> State" where
  "initialState ai =
     \<lparr> chat = None, messages = [], userInput = [],
       loading = \<lparr> script = False, image' = False, audio = False \<rparr>,
       imageUrl = [], audioBuffer = None, isPlaying = False,
       audioContextRef = None, audioSourceRef = None,
       serviceAi = ai, sources = [], contextsCreated = 0,
       calls = [], audioLog = [], pending = [] \<rparr>"

subsection \<open>The service functions (\<open>services/geminiService\<close>)\<close>

datatype 'a Settled = Rejected | Resolved 'a

text \<open>
  \<open>String.prototype.trim\<close>. A character stands for a code unit of the JavaScript string
  below 256; the white space and line terminators of \<open>trim\<close> in that range are tab,
  line feed, vertical tab, form feed, carriage return, space and the no-break space
  U+00A0. The others (U+1680, U+2000 to U+200A, U+2028, U+2029, U+202F, U+205F, U+3000
  and U+FEFF) lie outside the character type. A JavaScript value of type
  \<open>string | null\<close> is truthy when it is a non-empty string.
\<close>

definition isWhiteSpace :: "char \<Rightarrow> bool" where
  "isWhiteSpace c = (c \<in> set [CHR 0x09, CHR 0x0A, CHR 0x0B, CHR 0x0C, CHR 0x0D, CHR 0x20, CHR 0xA0])"

definition trim :: "string \<Rightarrow> string" where
  "trim s = rev (dropWhile isWhiteSpace (rev (dropWhile isWhiteSpace s)))"

definition truthy :: "string option \<Rightarrow> bool" where
  "truthy v = (case v of None \<Rightarrow> False | Some x \<Rightarrow> x \<noteq> [])"

text \<open>
  Each service function returns \<open>null\<close> when the module variable \<open>ai\<close> is unset and
  catches every failure of its provider call, returning \<open>null\<close>; its promise never
  rejects. The second argument is the outcome of the provider call: the response text,
  the image bytes of the generated images, and the inline data of the first part of the
  first candidate where there is one.
\<close>

definition generateImagePrompt :: "bool \<Rightarrow> string Settled \<Rightarrow> string option" where
  "generateImagePrompt ai response =
     (if \<not> ai then None
      else (case response of Rejected \<Rightarrow> None | Resolved text \<Rightarrow> Some (trim text)))"

definition generateMeditationImage :: "bool \<Rightarrow> string list Settled \<Rightarrow> string option" where
  "generateMeditationImage ai response =
     (if \<not> ai then None
      else (case response of
              Rejected \<Rightarrow> None
            | Resolved generatedImages \<Rightarrow>
                (case generatedImages of [] \<Rightarrow> None | imageBytes # _ \<Rightarrow> Some imageBytes)))"

definition generateMeditationAudio :: "bool \<Rightarrow> string option Settled \<Rightarrow> string option" where
  "generateMeditationAudio ai response =
     (if \<not> ai then None
      else (case response of
              Rejected \<Rightarrow> None
            | Resolved base64Audio \<Rightarrow> (if truthy base64Audio then base64Audio else None)))"

subsection \<open>The mount effect (\<open>App.tsx\<close>, lines 24 to 44)\<close>

text \<open>
  The effect has an empty dependency list: it runs once, when the component is mounted.
  Its \<open>try\<close> block constructs the provider client, creates the chat and then constructs
  the audio context; an exception at any of the three leaves the later assignments
  undone. The welcome message is set after the \<open>try\<close> statement in every case.
\<close>

datatype MountOutcome = MountOk | GoogleGenAIThrows | ChatsCreateThrows | AudioContextThrows

definition welcomeMessage :: ChatMessage where
  "welcomeMessage =
     \<lparr> role = Model,
       content =
         ''Welcome to Serene AI. How can I help you find your calm today? '' @
         ''You can ask for a meditation on a topic like '' @
         CHR 0x22 # ''stress relief'' @ CHR 0x22 # '' or '' @
         CHR 0x22 # ''finding focus'' @ CHR 0x22 # ''.'' \<rparr>"

definition mount :: "MountOutcome \<Rightarrow> State \<Rightarrow> State" where
  "mount outcome s =
     (let s' = (case outcome of
                  GoogleGenAIThrows \<Rightarrow> s
                | ChatsCreateThrows \<Rightarrow> s
                | AudioContextThrows \<Rightarrow> s\<lparr>chat := Some GeminiChat\<rparr>
                | MountOk \<Rightarrow>
                    s\<lparr>chat := Some GeminiChat,
                      audioContextRef :=
                        Some \<lparr> contextId = contextsCreated s, contextSampleRate = 24000 \<rparr>,
                      contextsCreated := Suc (contextsCreated s)\<rparr>)
      in s'\<lparr>messages := [welcomeMessage]\<rparr>)"

subsection \<open>\<open>handleSendMessage\<close> (\<open>App.tsx\<close>, lines 52 to 96)\<close>

definition isGenerating :: "LoadingState \<Rightarrow> bool" where
  "isGenerating l = (script l \<or> image' l \<or> audio l)"

definition errorMessage :: ChatMessage where
  "errorMessage = \<lparr> role = Model, content = ''Sorry, I encountered an error. Please try again.'' \<rparr>"

text \<open>
  The synchronous part of the handler, from its entry to the first await at line 64: the
  guard, the five state updates and the call of \<open>chat.sendMessage\<close> with the input text
  the handler was entered with.
\<close>

definition handleSendMessage :: "State \<Rightarrow> State" where
  "handleSendMessage s =
     (if trim (userInput s) = [] \<or> chat s = None \<or> isGenerating (loading s) then s
      else s\<lparr>messages := messages s @ [\<lparr> role = User, content = userInput s \<rparr>],
             userInput := [],
             loading := \<lparr> script = True, image' = True, audio = True \<rparr>,
             audioBuffer := None,
             isPlaying := False,
             calls := calls s @ [SendMessage (userInput s)],
             pending := pending s @ [AwaitSendMessage]\<rparr>)"

text \<open>The \<open>catch\<close> block, lines 90 to 95.\<close>

definition catchBlock :: "State \<Rightarrow> State" where
  "catchBlock s =
     s\<lparr>messages := messages s @ [errorMessage],
       loading := \<lparr> script = False, image' = False, audio = False \<rparr>\<rparr>"

datatype Reply =
    SendMessageReply "string Settled"
  | ImagePromptReply "string Settled"
  | MeditationImageReply "string list Settled"
  | MeditationAudioReply "string option Settled"
  | DecodeAudioDataReply "unit Settled"

text \<open>
  The handler from one await to the next: \<open>resume a reply s\<close> continues the invocation
  suspended at \<open>a\<close> when the awaited promise settles with \<open>reply\<close>, and gives the state
  it leaves and the next await, or \<open>None\<close> for the await when the handler returns. The
  outer \<open>None\<close> says that the reply is not the one this await waits for. All five
  awaits are inside the \<open>try\<close> statement: a rejected promise of \<open>chat.sendMessage\<close>
  or of \<open>decodeAudioData\<close> and an exception of \<open>decode\<close> enter the \<open>catch\<close> block. The
  promises of the three service functions never reject. When the promise of
  \<open>decodeAudioData\<close> resolves, its value is the buffer of the converter of section 4.2.
\<close>

fun resume :: "Await \<Rightarrow> Reply \<Rightarrow> State \<Rightarrow> (State \<times> Await option) option" where
  "resume AwaitSendMessage (SendMessageReply Rejected) s = Some (catchBlock s, None)"
| "resume AwaitSendMessage (SendMessageReply (Resolved scriptText)) s =
     Some (s\<lparr>messages := messages s @ [\<lparr> role = Model, content = scriptText \<rparr>],
             loading := (loading s)\<lparr>script := False\<rparr>,
             calls := calls s @ [GenerateImagePrompt scriptText,
                                 GenerateMeditationAudio scriptText]\<rparr>,
           Some AwaitImagePrompt)"
| "resume AwaitImagePrompt (ImagePromptReply response) s =
     (case generateImagePrompt (serviceAi s) response of
        None \<Rightarrow> Some (s\<lparr>loading := (loading s)\<lparr>image' := False\<rparr>\<rparr>, Some AwaitAudio)
      | Some imagePrompt \<Rightarrow>
          (if imagePrompt \<noteq> []
           then Some (s\<lparr>calls := calls s @ [GenerateMeditationImage imagePrompt]\<rparr>,
                      Some AwaitMeditationImage)
           else Some (s\<lparr>loading := (loading s)\<lparr>image' := False\<rparr>\<rparr>, Some AwaitAudio)))"
| "resume AwaitMeditationImage (MeditationImageReply response) s =
     (let imageData = generateMeditationImage (serviceAi s) response;
          s' = (case imageData of
                  None \<Rightarrow> s
                | Some d \<Rightarrow>
                    (if d \<noteq> [] then s\<lparr>imageUrl := ''data:image/jpeg;base64,'' @ d\<rparr> else s))
      in Some (s'\<lparr>loading := (loading s')\<lparr>image' := False\<rparr>\<rparr>, Some AwaitAudio))"
| "resume AwaitAudio (MeditationAudioReply response) s =
     (let audioData = generateMeditationAudio (serviceAi s) response
      in (case (audioData, audioContextRef s) of
            (Some d, Some ctx) \<Rightarrow>
              (if d \<noteq> []
               then (case decode d of
                       Inl e \<Rightarrow> Some (catchBlock s, None)
                     | Inr decoded \<Rightarrow> Some (s, Some (AwaitDecodeAudioData decoded)))
               else Some (s\<lparr>loading := (loading s)\<lparr>audio := False\<rparr>\<rparr>, None))
          | _ \<Rightarrow> Some (s\<lparr>loading := (loading s)\<lparr>audio := False\<rparr>\<rparr>, None)))"
| "resume (AwaitDecodeAudioData decoded) (DecodeAudioDataReply Rejected) s =
     Some (catchBlock s, None)"
| "resume (AwaitDecodeAudioData decoded) (DecodeAudioDataReply (Resolved u)) s =
     Some (s\<lparr>audioBuffer := Some (decodeAudioData decoded 24000 1),
             loading := (loading s)\<lparr>audio := False\<rparr>\<rparr>,
           None)"
| "resume _ _ s = None"

text \<open>
  The promise awaited by the \<open>n\<close>-th suspended invocation settles: the invocation runs to
  its next await, or returns and leaves the list.
\<close>

definition settle :: "nat \<Rightarrow> Reply \<Rightarrow> State \<Rightarrow> State" where
  "settle n reply s =
     (if n < length (pending s)
      then (case resume (pending s ! n) reply s of
              None \<Rightarrow> s
            | Some (s', None) \<Rightarrow> s'\<lparr>pending := take n (pending s) @ drop (Suc n) (pending s)\<rparr>
            | Some (s', Some a) \<Rightarrow> s'\<lparr>pending := (pending s)[n := a]\<rparr>)
      else s)"

subsection \<open>\<open>handlePlayPause\<close> (\<open>App.tsx\<close>, lines 98 to 113)\<close>

text \<open>The two branches of the handler: lines 102 and 103, and lines 105 to 111.\<close>

definition stop :: "State \<Rightarrow> State" where
  "stop s =
     (let s' = (case audioSourceRef s of
                  None \<Rightarrow> s
                | Some n \<Rightarrow>
                    (if n < length (sources s)
                     then s\<lparr>sources := (sources s)[n := (sources s ! n)\<lparr>playing := False\<rparr>],
                            audioLog := audioLog s @ [Stop n]\<rparr>
                     else s))
      in s'\<lparr>isPlaying := False\<rparr>)"

definition play :: "AudioBuffer \<Rightarrow> State \<Rightarrow> State" where
  "play buf s =
     s\<lparr>sources := sources s @ [\<lparr> buffer = buf, playing = True, ended = False \<rparr>],
       audioLog := audioLog s @ [Start (length (sources s))],
       audioSourceRef := Some (length (sources s)),
       isPlaying := True\<rparr>"

definition handlePlayPause :: "State \<Rightarrow> State" where
  "handlePlayPause s =
     (case (audioContextRef s, audioBuffer s) of
        (Some ctx, Some buf) \<Rightarrow> (if isPlaying s then stop s else play buf s)
      | _ \<Rightarrow> s)"

text \<open>
  The \<open>ended\<close> event of source node \<open>n\<close>, delivered once, after the node has played to
  the end of its buffer or has been stopped: the callback of line 108 runs.
\<close>

definition onended :: "nat \<Rightarrow> State \<Rightarrow> State" where
  "onended n s =
     (if n < length (sources s) \<and> \<not> ended (sources s ! n)
      then s\<lparr>sources := (sources s)[n := (sources s ! n)\<lparr>playing := False, ended := True\<rparr>],
             isPlaying := False\<rparr>
      else s)"

subsection \<open>Events\<close>

text \<open>
  What can happen to the mounted component: the input field changes, the send action or
  the play control is used, a source node ends, an awaited promise settles. A state update
  is taken to be visible to the next event, as it is between two discrete events.
\<close>

datatype Event =
    Change string
  | Send
  | PlayPause
  | Ended nat
  | Settle nat Reply

fun step :: "Event \<Rightarrow> State \<Rightarrow> State" where
  "step (Change text) s = s\<lparr>userInput := text\<rparr>"
| "step Send s = handleSendMessage s"
| "step PlayPause s = handlePlayPause s"
| "step (Ended n) s = onended n s"
| "step (Settle n reply) s = settle n reply s"

definition run :: "Event list \<Rightarrow> State \<Rightarrow> State" where
  "run events s = fold step events s"

text \<open>
  One whole invocation of \<open>handleSendMessage\<close> with nothing else in between: the send, and
  then the five awaited promises settling in program order. A reply that the invocation
  does not wait for (the image, when there was no image prompt; everything after the
  handler has returned) changes nothing.
\<close>

record Replies =
  scriptReply :: "string Settled"
  imagePromptReply :: "string Settled"
  imageReply :: "string list Settled"
  audioReply :: "string option Settled"
  decodeAudioDataReply :: "unit Settled"

definition generationCycle :: "Replies \<Rightarrow> State \<Rightarrow> State" where
  "generationCycle r s =
     (let n = length (pending s)
      in run [Send,
              Settle n (SendMessageReply (scriptReply r)),
              Settle n (ImagePromptReply (imagePromptReply r)),
              Settle n (MeditationImageReply (imageReply r)),
              Settle n (MeditationAudioReply (audioReply r)),
              Settle n (DecodeAudioDataReply (decodeAudioDataReply r))] s)"

text \<open>The source nodes that are emitting audio.\<close>

definition activeSessions :: "State \<Rightarrow> nat list" where
  "activeSessions s = filter (\<lambda>n. playing (sources s ! n)) [0 ..< length (sources s)]"


subsection \<open>Conditions on states\<close>

text \<open>
  \<open>oneCycle\<close>: at most one invocation of \<open>handleSendMessage\<close> is suspended, and then the
  audio flag is set. \<open>ready\<close>: the guard of \<open>handlePlayPause\<close> passes and the playing
  flag comes with a referenced node. \<open>wired\<close>: the references of a reachable state.
\<close>

definition oneCycle :: "State \<Rightarrow> bool" where
  "oneCycle s = (length (pending s) \<le> 1 \<and> (pending s \<noteq> [] \<longrightarrow> audio (loading s)))"

definition ready :: "State \<Rightarrow> bool" where
  "ready s = (audioContextRef s \<noteq> None \<and> audioBuffer s \<noteq> None \<and>
     (isPlaying s \<longrightarrow> (\<exists>n. audioSourceRef s = Some n \<and> n < length (sources s))))"

definition wired :: "State \<Rightarrow> bool" where
  "wired s =
     ((\<forall>n. audioSourceRef s = Some n \<longrightarrow> n < length (sources s)) \<and>
      (isPlaying s \<longrightarrow> audioSourceRef s \<noteq> None) \<and>
      (audioBuffer s \<noteq> None \<longrightarrow> audioContextRef s \<noteq> None) \<and>
      (\<forall>d. AwaitDecodeAudioData d \<in> set (pending s) \<longrightarrow> audioContextRef s \<noteq> None))"

section \<open>Properties of the binary decoder\<close>

lemma length_alphabet: "length alphabet = 64" by (simp add: alphabet_def)

lemma distinct_alphabet: "distinct alphabet" by (simp add: alphabet_def)

lemma pad_notin: "pad \<notin> set alphabet" by (simp add: alphabet_def pad_def)

lemma index_of_None: "index_of x xs = None \<longleftrightarrow> x \<notin> set xs"
  by (induction xs) auto

lemma index_of_Some: "index_of x xs = Some n \<Longrightarrow> n < length xs \<and> xs ! n = x"
  by (induction xs arbitrary: n) (auto split: if_splits)

lemma index_of_nth: "distinct xs \<Longrightarrow> n < length xs \<Longrightarrow> index_of (xs ! n) xs = Some n"
proof (induction xs arbitrary: n)
  case Nil then show ?case by simp
next
  case (Cons y ys)
  then show ?case by (cases n) auto
qed

lemma sextet_digit: "sextet (digit n) = Some (n mod 64)"
  unfolding sextet_def digit_def
  by (rule index_of_nth) (simp_all add: distinct_alphabet length_alphabet)

lemma sextet_bound: "sextet c = Some n \<Longrightarrow> n < 64"
  unfolding sextet_def using index_of_Some length_alphabet by metis

lemma sextet_pad: "sextet pad = None"
  by (simp add: sextet_def index_of_None pad_notin)

lemma digit_not_pad: "digit n \<noteq> pad"
  using sextet_digit sextet_pad by (metis option.distinct(1))

lemma sextet_alphabet: "sextet c \<noteq> None \<longleftrightarrow> in_alphabet c"
  by (simp add: sextet_def index_of_None in_alphabet_def)

lemma byte1_digits: "byte1 (unat a div 4) ((unat a mod 4) * 16 + k div 16) = a" if "k < 256" for a :: byte
proof -
  have "(unat a mod 4 * 16 + k div 16) div 16 = unat a mod 4" using that by simp
  then have "unat a div 4 * 4 + (unat a mod 4 * 16 + k div 16) div 16 = unat a" by simp
  then show ?thesis by (simp add: byte1_def)
qed

lemma unat_byte: "unat a < 256" for a :: byte
  using unsigned_less[of a, where 'a = nat] by simp

lemma byte1_padded: "byte1 (unat a div 4) ((unat a mod 4) * 16) = a" for a :: byte
  using byte1_digits[of 0 a] by simp

lemma byte2_digits: "byte2 ((unat a mod 4) * 16 + unat b div 16) ((unat b mod 16) * 4 + k div 64) = b" if "k < 256" for a b :: byte
proof -
  have "(unat a mod 4 * 16 + unat b div 16) mod 16 = unat b div 16"
    using unat_byte[of b] by simp
  moreover have "(unat b mod 16 * 4 + k div 64) div 4 = unat b mod 16" using that by simp
  ultimately show ?thesis by (simp add: byte2_def)
qed

lemma byte2_padded: "byte2 ((unat a mod 4) * 16 + unat b div 16) ((unat b mod 16) * 4) = b" for a b :: byte
  using byte2_digits[of 0 a b] by simp

lemma byte3_digits: "byte3 ((unat b mod 16) * 4 + unat c div 64) (unat c mod 64) = c" for b c :: byte
proof -
  have "(unat b mod 16 * 4 + unat c div 64) mod 4 = unat c div 64"
    using unat_byte[of c] by simp
  then show ?thesis by (simp add: byte3_def)
qed

lemma sextet_digit_small: "n < 64 \<Longrightarrow> sextet (digit n) = Some n"
  by (simp add: sextet_digit)

lemma sextet_digit1: "sextet (digit (unat a div 4)) = Some (unat a div 4)" for a :: byte
  using unat_byte[of a] by (simp add: sextet_digit)

lemma sextet_digit2: "k < 256 \<Longrightarrow> sextet (digit (unat a mod 4 * 16 + k div 16)) = Some (unat a mod 4 * 16 + k div 16)" for a :: byte
proof (rule sextet_digit_small)
  assume "k < 256"
  then have "k div 16 < 16" by simp
  moreover have "unat a mod 4 < 4" by simp
  ultimately show "unat a mod 4 * 16 + k div 16 < 64" by linarith
qed

lemma sextet_digit2_padded: "sextet (digit (unat a mod 4 * 16)) = Some (unat a mod 4 * 16)" for a :: byte
  using sextet_digit2[of 0 a] by simp

lemma sextet_digit3: "k < 256 \<Longrightarrow> sextet (digit (unat b mod 16 * 4 + k div 64)) = Some (unat b mod 16 * 4 + k div 64)" for b :: byte
proof (rule sextet_digit_small)
  assume "k < 256"
  then have "k div 64 < 4" by simp
  moreover have "unat b mod 16 < 16" by simp
  ultimately show "unat b mod 16 * 4 + k div 64 < 64" by linarith
qed

lemma sextet_digit3_padded: "sextet (digit (unat b mod 16 * 4)) = Some (unat b mod 16 * 4)" for b :: byte
  using sextet_digit3[of 0 b] by simp

lemma sextet_digit4: "sextet (digit (unat c mod 64)) = Some (unat c mod 64)" for c :: byte
  by (simp add: sextet_digit)

lemma decode_encode: "decode (encode bs) = Inr bs"
proof (induction bs rule: encode.induct)
  case 1 show ?case by simp
next
  case (2 a)
  show ?case by (simp add: sextet_digit1 sextet_digit2_padded byte1_padded)
next
  case (3 a b)
  show ?case by (simp add: sextet_digit1 sextet_digit2 sextet_digit3_padded unat_byte digit_not_pad byte1_digits byte2_padded)
next
  case (4 a b c rest)
  then show ?case by (simp add: sextet_digit1 sextet_digit2 sextet_digit3 sextet_digit4 unat_byte digit_not_pad byte1_digits byte2_digits byte3_digits)
qed

lemma not_in_alphabet_pad: "\<not> in_alphabet pad"
  by (simp add: in_alphabet_def pad_notin)

lemma in_alphabet_not_pad: "in_alphabet c \<Longrightarrow> c \<noteq> pad"
  using not_in_alphabet_pad by blast

lemma sextet_None_iff: "sextet c = None \<longleftrightarrow> \<not> in_alphabet c"
  using sextet_alphabet by blast

lemma valid_base64_Nil: "valid_base64 []"
  by (simp add: valid_base64_def)

lemma valid_base64_group:
  "valid_base64 (a # b # c # d # rest) \<longleftrightarrow>
     in_alphabet a \<and> in_alphabet b \<and>
     (if c = pad then d = pad \<and> rest = []
      else in_alphabet c \<and> (if d = pad then rest = [] else in_alphabet d \<and> valid_base64 rest))"
  using not_in_alphabet_pad
  by (auto simp add: valid_base64_def Let_def)

lemma valid_base64_short:
  "\<not> valid_base64 [a]" "\<not> valid_base64 [a, b]" "\<not> valid_base64 [a, b, c]"
  by (simp_all add: valid_base64_def Let_def)

lemma decode_error_iff: "decode s = Inl MalformedEncodingError \<longleftrightarrow> \<not> valid_base64 s"
proof (induction s rule: decode.induct)
  case 1
  show ?case by (simp add: valid_base64_Nil)
next
  case (2 a b c d rest)
  show ?case
  proof (cases "sextet a")
    case None
    moreover have "\<not> in_alphabet a" using None sextet_None_iff by blast
    ultimately show ?thesis by (simp add: valid_base64_group)
  next
    case (Some x)
    note A = this
    show ?thesis
    proof (cases "sextet b")
      case None
      moreover have "\<not> in_alphabet b" using None sextet_None_iff by blast
      ultimately show ?thesis using A by (simp add: valid_base64_group)
    next
      case (Some y)
      note B = this
      have ab: "in_alphabet a" "in_alphabet b" using A B sextet_alphabet[of a] sextet_alphabet[of b] by simp_all
      show ?thesis
      proof (cases "sextet c")
        case None
        moreover have "\<not> in_alphabet c" using None sextet_None_iff by blast
        ultimately show ?thesis using A B ab by (auto simp add: valid_base64_group)
      next
        case (Some z)
        note C = this
        have c: "in_alphabet c" "c \<noteq> pad" using C sextet_alphabet[of c] in_alphabet_not_pad by auto
        show ?thesis
        proof (cases "sextet d")
          case None
          moreover have "\<not> in_alphabet d" using None sextet_None_iff by blast
          ultimately show ?thesis using A B C ab c by (auto simp add: valid_base64_group)
        next
          case (Some w)
          have d: "in_alphabet d" "d \<noteq> pad" using Some sextet_alphabet[of d] in_alphabet_not_pad by auto
          have "decode rest = Inl MalformedEncodingError \<longleftrightarrow> \<not> valid_base64 rest"
            using "2.IH" A B C Some c d
            by simp
          then show ?thesis using A B C Some ab c d
            by (auto simp add: valid_base64_group split: sum.splits)
        qed
      qed
    qed
  qed
qed (simp_all add: valid_base64_short)

text \<open>The decoder against the bit-level reading of the text.\<close>

lemma bits_value_snoc: "bits_value (bs @ [b]) = 2 * bits_value bs + (if b then 1 else 0)"
  by (simp add: bits_value_def)

lemma bits_value_bits: "bits_value (bits k n) = n mod 2 ^ k"
proof (induction k arbitrary: n)
  case 0
  show ?case by (simp add: bits_value_def)
next
  case (Suc k)
  have "n mod (2 * 2 ^ k) = 2 * (n div 2 mod 2 ^ k) + n mod 2"
    by (rule mod_mult2_eq)
  then show ?case
    using Suc [of "n div 2"] by (simp add: bits_value_snoc mod2_eq_if)
qed

lemma foldl_shift:
  "foldl (\<lambda>a b. 2 * a + (if b then 1 else 0)) v bs = v * 2 ^ length bs + bits_value bs"
proof (induction bs rule: rev_induct)
  case Nil
  show ?case by (simp add: bits_value_def)
next
  case (snoc b bs)
  then show ?case by (simp add: bits_value_snoc algebra_simps)
qed

lemma bits_value_append:
  "bits_value (xs @ ys) = bits_value xs * 2 ^ length ys + bits_value ys"
  by (simp add: bits_value_def foldl_shift [of "foldl _ 0 xs"])

lemma length_bits: "length (bits k n) = k"
  by (induction k arbitrary: n) simp_all

lemma bits_add: "bits (j + k) n = bits j (n div 2 ^ k) @ bits k n"
proof (induction k arbitrary: n)
  case 0
  show ?case by simp
next
  case (Suc k)
  have "bits (j + Suc k) n = bits (j + k) (n div 2) @ [odd n]" by simp
  also have "\<dots> = (bits j (n div 2 div 2 ^ k) @ bits k (n div 2)) @ [odd n]"
    by (simp only: Suc)
  also have "n div 2 div 2 ^ k = n div 2 ^ Suc k"
    by (simp add: div_mult2_eq)
  finally show ?case by simp
qed

lemma octets_short: "length bs < 8 \<Longrightarrow> octets bs = []"
  by (induction bs rule: octets.induct) simp_all

lemma octets_first:
  assumes "length xs = 8"
  shows "octets (xs @ rest) = of_nat (bits_value xs) # octets rest"
proof -
  obtain b7 b6 b5 b4 b3 b2 b1 b0 where "xs = [b7, b6, b5, b4, b3, b2, b1, b0]"
    using assms by (auto simp add: length_Suc_conv eval_nat_numeral)
  then show ?thesis by simp
qed

lemma bits_6_split_2: "bits 6 n = bits 2 (n div 16) @ bits 4 n"
  using bits_add [of 2 4 n] by simp

lemma bits_6_split_4: "bits 6 n = bits 4 (n div 4) @ bits 2 n"
  using bits_add [of 4 2 n] by simp

lemma first_octet:
  assumes "x < 64" "y < 64"
  shows "bits_value (bits 6 x @ bits 2 (y div 16)) = x * 4 + y div 16"
proof -
  have "y div 16 < 4" using assms by simp
  then show ?thesis using assms by (simp add: bits_value_append bits_value_bits length_bits)
qed

lemma second_octet:
  assumes "z < 64"
  shows "bits_value (bits 4 y @ bits 4 (z div 4)) = (y mod 16) * 16 + z div 4"
proof -
  have "z div 4 < 16" using assms by simp
  then show ?thesis by (simp add: bits_value_append bits_value_bits length_bits)
qed

lemma third_octet:
  assumes "w < 64"
  shows "bits_value (bits 2 z @ bits 6 w) = (z mod 4) * 64 + w"
  using assms by (simp add: bits_value_append bits_value_bits length_bits)

lemma octets_three:
  assumes "x < 64" "y < 64" "z < 64" "w < 64"
  shows "octets (bits 6 x @ bits 6 y @ bits 6 z @ bits 6 w @ tail) =
           byte1 x y # byte2 y z # byte3 z w # octets tail"
proof -
  have "bits 6 x @ bits 6 y @ bits 6 z @ bits 6 w @ tail =
      (bits 6 x @ bits 2 (y div 16)) @ (bits 4 y @ bits 4 (z div 4)) @ (bits 2 z @ bits 6 w) @ tail"
    by (simp only: bits_6_split_2 [of y] bits_6_split_4 [of z] append_assoc)
  then show ?thesis
    using assms
    by (simp only: octets_first length_append length_bits first_octet second_octet third_octet
          byte1_def byte2_def byte3_def)
qed

lemma octets_two:
  assumes "x < 64" "y < 64" "z < 64"
  shows "octets (bits 6 x @ bits 6 y @ bits 6 z) = [byte1 x y, byte2 y z]"
proof -
  have "bits 6 x @ bits 6 y @ bits 6 z =
      (bits 6 x @ bits 2 (y div 16)) @ (bits 4 y @ bits 4 (z div 4)) @ bits 2 z"
    by (simp only: bits_6_split_2 [of y] bits_6_split_4 [of z] append_assoc)
  moreover have "octets (bits 2 z) = []"
    by (rule octets_short) (simp add: length_bits)
  ultimately show ?thesis
    using assms
    by (simp only: octets_first length_append length_bits first_octet second_octet
          byte1_def byte2_def)
qed

lemma octets_one:
  assumes "x < 64" "y < 64"
  shows "octets (bits 6 x @ bits 6 y) = [byte1 x y]"
proof -
  have "bits 6 x @ bits 6 y = (bits 6 x @ bits 2 (y div 16)) @ bits 4 y"
    by (simp only: bits_6_split_2 [of y] append_assoc)
  moreover have "octets (bits 4 y) = []"
    by (rule octets_short) (simp add: length_bits)
  ultimately show ?thesis
    using assms
    by (simp only: octets_first length_append length_bits first_octet byte1_def)
qed

lemma decode_decoded_bytes: "valid_base64 s \<Longrightarrow> decode s = Inr (decoded_bytes s)"
proof (induction s rule: decode.induct)
  case 1
  show ?case by (simp add: decoded_bytes_def)
next
  case (2 a b c d rest)
  from "2.prems" have ab: "in_alphabet a" "in_alphabet b"
    and tail: "if c = pad then d = pad \<and> rest = []
               else in_alphabet c \<and> (if d = pad then rest = [] else in_alphabet d \<and> valid_base64 rest)"
    by (simp_all add: valid_base64_group)
  obtain x y where x: "sextet a = Some x" and y: "sextet b = Some y"
    using ab sextet_alphabet by blast
  have np: "a \<noteq> pad" "b \<noteq> pad" using ab in_alphabet_not_pad by blast+
  have xb: "x < 64" "y < 64" using x y sextet_bound by blast+
  show ?case
  proof (cases "c = pad")
    case True
    then have "d = pad" "rest = []" using tail by simp_all
    then show ?thesis
      using True x y np xb by (simp add: decoded_bytes_def octets_one)
  next
    case False
    then have ca: "in_alphabet c" using tail by simp
    then obtain z where z: "sextet c = Some z" using sextet_alphabet by blast
    have zb: "z < 64" using z sextet_bound by blast
    show ?thesis
    proof (cases "d = pad")
      case True
      then have "rest = []" using tail False by simp
      then show ?thesis
        using True False x y z np xb zb by (simp add: decoded_bytes_def octets_two)
    next
      case dn: False
      then have da: "in_alphabet d" and vr: "valid_base64 rest" using tail False by simp_all
      then obtain w where w: "sextet d = Some w" using sextet_alphabet by blast
      have wb: "w < 64" using w sextet_bound by blast
      have ih: "decode rest = Inr (decoded_bytes rest)"
        using "2.IH" x y z w False dn vr by simp
      show ?thesis
        using False dn x y z w np xb zb wb ih
        by (simp add: decoded_bytes_def octets_three)
    qed
  qed
qed (simp_all add: valid_base64_short)

lemma valid_base64_encode: "valid_base64 (encode bs)"
  using decode_error_iff [of "encode bs"] by (simp add: decode_encode)

lemma decode_total_on_valid: "valid_base64 s \<Longrightarrow> \<exists>bs. decode s = Inr bs"
proof -
  assume "valid_base64 s"
  then have "decode s \<noteq> Inl MalformedEncodingError"
    by (simp add: decode_error_iff)
  then show ?thesis
    by (cases "decode s") (auto intro: DecodeError.exhaust)
qed

text \<open>
  Claim C4. \<open>decode\<close> fails with \<open>MalformedEncodingError\<close> exactly on the texts that have
  a character outside the base64 alphabet or invalid padding. On every valid text it
  returns the exact decoded byte sequence, in order: the bits of the characters, six for
  each, cut into bytes. In particular the text that encodes a byte sequence decodes to
  that sequence. The function is pure: the result depends on the text alone.
\<close>

theorem decode_contract:
  "(decode s = Inl MalformedEncodingError \<longleftrightarrow> \<not> valid_base64 s) \<and>
   (valid_base64 s \<longrightarrow> decode s = Inr (decoded_bytes s)) \<and>
   valid_base64 (encode bs) \<and>
   decode (encode bs) = Inr bs"
  by (simp add: decode_error_iff decode_decoded_bytes valid_base64_encode decode_encode)

text \<open>
  A canonical text, a valid text whose last digit has spare bits that are not zero, a
  text with a character outside the alphabet and a text with misplaced padding.
\<close>

theorem decode_contract_witness:
  "valid_base64 ''AIA='' \<and> decode ''AIA='' = Inr [0x00, 0x80] \<and>
   decoded_bytes ''AIA='' = [0x00, 0x80] \<and>
   encode [0x00, 0x80] = ''AIA='' \<and>
   valid_base64 ''AB=='' \<and> decoded_bytes ''AB=='' = [0x00] \<and> decode ''AB=='' = Inr [0x00] \<and>
   \<not> valid_base64 ''A*A='' \<and> decode ''A*A='' = Inl MalformedEncodingError \<and>
   \<not> valid_base64 ''AI=A'' \<and> decode ''AI=A'' = Inl MalformedEncodingError"
proof -
  have e: "encode [0x00, 0x80] = ''AIA=''"
    by (simp add: digit_def alphabet_def pad_def)
  have v: "valid_base64 ''AB==''" "\<not> valid_base64 ''A*A=''" "\<not> valid_base64 ''AI=A''"
    by (simp_all add: valid_base64_def in_alphabet_def alphabet_def pad_def)
  have b: "decoded_bytes ''AB=='' = [0x00]" "decoded_bytes ''AIA='' = [0x00, 0x80]"
    by code_simp+
  show ?thesis
    using e v b decode_contract [of "''AIA=''" "[0x00, 0x80]"]
      decode_contract [of "''AB==''" "[]"]
      decode_contract [of "''A*A=''" "[]"] decode_contract [of "''AI=A''" "[]"]
    by simp
qed

text \<open>
  Claim C5. For every valid base64 text \<open>s\<close>, decoding, encoding the bytes again and
  decoding once more gives the bytes of the first decoding.
\<close>

theorem decode_encode_decode:
  "valid_base64 s \<Longrightarrow> \<exists>bs. decode s = Inr bs \<and> decode (encode bs) = decode s"
proof -
  assume "valid_base64 s"
  then obtain bs where "decode s = Inr bs"
    using decode_total_on_valid by blast
  then show ?thesis
    by (simp add: decode_encode)
qed

text \<open>
  The text \<open>AIB=\<close> is valid but not canonical (the last digit carries two spare bits that
  are not zero): encoding its bytes gives \<open>AIA=\<close>, a different text with the same bytes.
\<close>

theorem decode_encode_decode_witness:
  "valid_base64 ''AIB='' \<and> decode ''AIB='' = Inr [0x00, 0x80] \<and>
   encode [0x00, 0x80] \<noteq> ''AIB='' \<and>
   decode (encode [0x00, 0x80]) = decode ''AIB=''"
proof -
  have v: "valid_base64 ''AIB=''"
    by (simp add: valid_base64_def in_alphabet_def alphabet_def pad_def)
  have d: "decode ''AIB='' = Inr [0x00, 0x80]"
    by (simp add: sextet_def alphabet_def pad_def byte1_def byte2_def)
  have e: "encode [0x00, 0x80] \<noteq> ''AIB=''"
    by (simp add: digit_def alphabet_def pad_def)
  show ?thesis
    using v d e decode_encode_decode [OF v] by auto
qed

section \<open>Properties of the PCM converter\<close>

lemma uint_byte: "0 \<le> uint a \<and> uint a < 256" for a :: byte
  using unsigned_less[of a, where 'a = int] by simp

lemma ucast_lo: "uint (ucast lo :: 16 word) = uint lo" for lo :: byte
  by (rule uint_up_ucast) (simp add: is_up)

lemma push_hi: "uint (push_bit 8 (ucast hi :: 16 word)) = 256 * uint hi" for hi :: byte
proof -
  have "uint (ucast hi * (256 :: 16 word)) = uint (ucast hi :: 16 word) * uint (256 :: 16 word)"
    using uint_byte[of hi] by (subst uint_mult_lem[symmetric]) (simp add: ucast_lo)
  then show ?thesis by (simp add: push_bit_eq_mult ucast_lo)
qed

lemma uint_int16_le: "uint (int16_le lo hi) = uint lo + 256 * uint hi"
proof -
  have "uint (ucast lo :: 16 word) + uint (push_bit 8 (ucast hi :: 16 word)) < 2 ^ LENGTH(16)"
    using uint_byte[of lo] uint_byte[of hi] by (simp add: ucast_lo push_hi)
  then have "uint (ucast lo + push_bit 8 (ucast hi) :: 16 word) = uint (ucast lo :: 16 word) + uint (push_bit 8 (ucast hi :: 16 word))"
    by (simp only: uint_add_lem)
  then show ?thesis by (simp add: int16_le_def ucast_lo push_hi)
qed

lemma sint_16: "sint w = (if uint w < 32768 then uint w else uint w - 65536)" for w :: "16 word"
proof -
  have b: "0 \<le> uint w" "uint w < 65536" using unsigned_less[of w, where 'a = int] by simp_all
  have m: "sint w = (uint w + 32768) mod 65536 - 32768"
    by (simp add: sint_uint signed_take_bit_eq_take_bit_shift take_bit_eq_mod)
  show ?thesis
  proof (cases "uint w < 32768")
    case True
    then have "(uint w + 32768) mod 65536 = uint w + 32768"
      using b by (simp add: mod_pos_pos_trivial)
    then show ?thesis using True m by simp
  next
    case False
    have "uint w + 32768 = (uint w - 32768) + 65536" by arith
    then have "(uint w + 32768) mod 65536 = ((uint w - 32768) + 65536) mod 65536" by (simp only:)
    also have "\<dots> = (uint w - 32768) mod 65536" by (simp only: mod_add_self2)
    also have "\<dots> = uint w - 32768" using b False by (simp add: mod_pos_pos_trivial)
    finally show ?thesis using False m by simp
  qed
qed

lemma length_int16_samples: "length (int16_samples bs) = length bs div 2"
  by (induction bs rule: int16_samples.induct) simp_all

lemma nth_int16_samples:
  "k < length bs div 2 \<Longrightarrow> int16_samples bs ! k = int16_le (bs ! (2 * k)) (bs ! (2 * k + 1))"
proof (induction bs arbitrary: k rule: int16_samples.induct)
  case (1 lo hi rest)
  then show ?case by (cases k) simp_all
qed simp_all

lemma interleaved_index:
  fixes i c ch n :: nat
  assumes "i < n div c" "ch < c"
  shows "i * c + ch < n"
proof -
  have "i * c + ch < Suc i * c" using assms(2) by simp
  also have "\<dots> \<le> (n div c) * c" using assms(1) by (simp add: Suc_leI mult_le_mono1 del: mult_Suc)
  also have "\<dots> \<le> n" by simp
  finally show ?thesis .
qed

lemma frames_eq: "length (int16_samples bytes) div c = length bytes div (2 * c)"
  by (simp add: length_int16_samples div_mult2_eq)

lemma frameCount_decodeAudioData:
  "frameCount (decodeAudioData bytes rate c) = length bytes div (2 * c)"
  by (simp add: decodeAudioData_def Let_def frames_eq)

lemma channelData_decodeAudioData:
  "channelData (decodeAudioData bytes rate c) =
     map (\<lambda>channel. map (\<lambda>i. normalize_sample (int16_samples bytes ! (i * c + channel)))
        [0 ..< length bytes div (2 * c)]) [0 ..< c]"
  by (simp add: decodeAudioData_def Let_def frames_eq)

lemma normalize_int16_le:
  "normalize_sample (int16_le lo hi) =
     (let u = uint lo + 256 * uint hi in of_int (if u < 32768 then u else u - 65536) / 32768)"
  by (simp add: normalize_sample_def sint_16 uint_int16_le Let_def)

lemma int16_samples_take_single: "int16_samples (take k [v]) = []"
  by (cases k) simp_all

lemma int16_samples_take: "int16_samples (take (2 * n) bytes) = take n (int16_samples bytes)"
proof (induction bytes arbitrary: n rule: int16_samples.induct)
  case (1 lo hi rest)
  then show ?case by (cases n) simp_all
qed (simp_all add: int16_samples_take_single)

text \<open>
  Claim C1. Every sample of the converter's output is the signed 16-bit little-endian
  value of its byte pair (low byte plus 256 times the high byte, less 65536 from 32768
  on) divided by 32768: sample \<open>i\<close> of channel \<open>c\<close> comes from the pair at sample index
  \<open>i * channelCount + c\<close>. The pair \<open>[0x00, 0x80]\<close> gives exactly \<open>-1\<close> and the pair
  \<open>[0xFF, 0x7F]\<close> gives exactly \<open>32767 / 32768\<close>.
\<close>

theorem pcm_sample_value:
  "(0 < channelCount \<and> channel < channelCount \<and> i < length bytes div (2 * channelCount) \<longrightarrow>
      channelData (decodeAudioData bytes rate channelCount) ! channel ! i =
        (let k = i * channelCount + channel;
             u = uint (bytes ! (2 * k)) + 256 * uint (bytes ! (2 * k + 1))
         in of_int (if u < 32768 then u else u - 65536) / 32768)) \<and>
   channelData (decodeAudioData [0x00, 0x80] rate 1) = [[- 1]] \<and>
   channelData (decodeAudioData [0xFF, 0x7F] rate 1) = [[32767 / 32768]]"
proof (intro conjI impI)
  assume a: "0 < channelCount \<and> channel < channelCount \<and> i < length bytes div (2 * channelCount)"
  let ?k = "i * channelCount + channel"
  have "i < (length bytes div 2) div channelCount" using a by (simp add: div_mult2_eq)
  then have k: "?k < length bytes div 2" using a interleaved_index by blast
  have "channelData (decodeAudioData bytes rate channelCount) ! channel ! i =
          normalize_sample (int16_samples bytes ! ?k)"
    using a by (simp add: channelData_decodeAudioData)
  also have "\<dots> = normalize_sample (int16_le (bytes ! (2 * ?k)) (bytes ! (2 * ?k + 1)))"
    using k by (simp only: nth_int16_samples)
  finally show "channelData (decodeAudioData bytes rate channelCount) ! channel ! i =
        (let k = i * channelCount + channel;
             u = uint (bytes ! (2 * k)) + 256 * uint (bytes ! (2 * k + 1))
         in of_int (if u < 32768 then u else u - 65536) / 32768)"
    by (simp only: normalize_int16_le Let_def)
next
  show "channelData (decodeAudioData [0x00, 0x80] rate 1) = [[- 1]]"
    by (simp add: decodeAudioData_def int16_le_def normalize_sample_def)
next
  show "channelData (decodeAudioData [0xFF, 0x7F] rate 1) = [[32767 / 32768]]"
    by (simp add: decodeAudioData_def int16_le_def normalize_sample_def)
qed

theorem pcm_sample_value_witness:
  "channelData (decodeAudioData [0x34, 0x12, 0x00, 0x80, 0xFF, 0x7F, 0xFF, 0xFF] 24000 2) ! 1 ! 1 = - 1 / 32768"
  using pcm_sample_value [of 2 1 1 "[0x34, 0x12, 0x00, 0x80, 0xFF, 0x7F, 0xFF, 0xFF]" 24000]
  by simp

text \<open>
  Claim C3. The converter has no failure for a length mismatch: the result is always a
  buffer, with \<open>length bytes div (2 * channelCount)\<close> frames in each of its channels. The
  empty byte buffer gives zero frames, and a buffer of \<open>2 * n + 1\<close> bytes on one channel
  gives \<open>n\<close> frames, the same buffer as without its last byte.
\<close>

theorem pcm_frame_count:
  "(0 < channelCount \<longrightarrow>
      frameCount (decodeAudioData bytes rate channelCount) = length bytes div (2 * channelCount) \<and>
      length (channelData (decodeAudioData bytes rate channelCount)) = channelCount \<and>
      list_all (\<lambda>samples. length samples = length bytes div (2 * channelCount))
        (channelData (decodeAudioData bytes rate channelCount))) \<and>
   frameCount (decodeAudioData [] rate 1) = 0 \<and>
   channelData (decodeAudioData [] rate 1) = [[]] \<and>
   (length bytes = 2 * n + 1 \<longrightarrow>
      frameCount (decodeAudioData bytes rate 1) = n \<and>
      decodeAudioData bytes rate 1 = decodeAudioData (take (2 * n) bytes) rate 1)"
proof (intro conjI impI)
  show "frameCount (decodeAudioData bytes rate channelCount) = length bytes div (2 * channelCount)"
    by (rule frameCount_decodeAudioData)
  show "length (channelData (decodeAudioData bytes rate channelCount)) = channelCount"
    by (simp add: channelData_decodeAudioData)
  show "list_all (\<lambda>samples. length samples = length bytes div (2 * channelCount))
        (channelData (decodeAudioData bytes rate channelCount))"
    by (simp add: channelData_decodeAudioData list_all_iff)
  show "frameCount (decodeAudioData [] rate 1) = 0"
    by (simp add: frameCount_decodeAudioData)
  show "channelData (decodeAudioData [] rate 1) = [[]]"
    by (simp add: channelData_decodeAudioData)
next
  assume odd: "length bytes = 2 * n + 1"
  then show "frameCount (decodeAudioData bytes rate 1) = n"
    by (simp add: frameCount_decodeAudioData)
  have "length (int16_samples bytes) = n" using odd by (simp add: length_int16_samples)
  then have "int16_samples (take (2 * n) bytes) = int16_samples bytes"
    by (simp add: int16_samples_take)
  then show "decodeAudioData bytes rate 1 = decodeAudioData (take (2 * n) bytes) rate 1"
    using odd by (simp add: decodeAudioData_def Let_def length_int16_samples)
qed

theorem pcm_frame_count_witness:
  "frameCount (decodeAudioData [1, 2, 3, 4, 5, 6, 7, 8, 9] 24000 2) = 2 \<and>
   list_all (\<lambda>samples. length samples = 2) (channelData (decodeAudioData [1, 2, 3, 4, 5, 6, 7, 8, 9] 24000 2)) \<and>
   frameCount (decodeAudioData [1, 2, 3, 4, 5, 6, 7, 8, 9] 24000 1) = 4"
  using pcm_frame_count [of 2 "[1, 2, 3, 4, 5, 6, 7, 8, 9]" 24000 4]
    pcm_frame_count [of 1 "[1, 2, 3, 4, 5, 6, 7, 8, 9]" 24000 4]
  by simp

section \<open>Runs of the component\<close>

lemma run_Nil: "run [] s = s" by (simp add: run_def)

lemma run_Cons: "run (e # es) s = run es (step e s)" by (simp add: run_def)

lemma run_invariant:
  assumes "P s" and "\<And>e t. P t \<Longrightarrow> P (step e t)"
  shows "P (run es s)"
  using assms(1)
proof (induction es arbitrary: s)
  case Nil then show ?case by (simp add: run_Nil)
next
  case (Cons e es)
  then show ?case using assms(2) by (simp add: run_Cons)
qed

lemmas eval_defs = run_def handleSendMessage_def mount_def initialState_def trim_def isWhiteSpace_def
  isGenerating_def settle_def generateImagePrompt_def generateMeditationAudio_def generateMeditationImage_def truthy_def
  sextet_def alphabet_def pad_def byte1_def byte2_def byte3_def handlePlayPause_def play_def stop_def catchBlock_def
  onended_def

text \<open>What the steps of \<open>handleSendMessage\<close> leave alone.\<close>

lemma resume_frame:
  assumes "resume a reply s = Some (s', next)"
  shows "sources s' = sources s" "audioLog s' = audioLog s" "audioSourceRef s' = audioSourceRef s"
    "audioContextRef s' = audioContextRef s" "contextsCreated s' = contextsCreated s"
    "isPlaying s' = isPlaying s" "pending s' = pending s" "serviceAi s' = serviceAi s"
    "chat s' = chat s" "userInput s' = userInput s"
  using assms
  by (induction a reply s rule: resume.induct;
      auto simp add: catchBlock_def Let_def split: option.splits if_splits sum.splits prod.splits)+

lemma settle_frame:
  "sources (settle n reply s) = sources s"
  "audioLog (settle n reply s) = audioLog s"
  "audioSourceRef (settle n reply s) = audioSourceRef s"
  "audioContextRef (settle n reply s) = audioContextRef s"
  "contextsCreated (settle n reply s) = contextsCreated s"
  "isPlaying (settle n reply s) = isPlaying s"
  by (auto simp add: settle_def resume_frame split: option.splits prod.splits)

lemma settle_serviceAi: "serviceAi (settle n reply t) = serviceAi t"
  by (auto simp add: settle_def resume_frame split: option.splits prod.splits)

lemma handleSendMessage_frame:
  "sources (handleSendMessage s) = sources s"
  "audioLog (handleSendMessage s) = audioLog s"
  "audioSourceRef (handleSendMessage s) = audioSourceRef s"
  "audioContextRef (handleSendMessage s) = audioContextRef s"
  "contextsCreated (handleSendMessage s) = contextsCreated s"
  by (simp_all add: handleSendMessage_def)

lemma handlePlayPause_context:
  "audioContextRef (handlePlayPause s) = audioContextRef s"
  "contextsCreated (handlePlayPause s) = contextsCreated s"
  by (auto simp add: handlePlayPause_def stop_def play_def Let_def split: option.splits)

lemma onended_context:
  "audioContextRef (onended n s) = audioContextRef s"
  "contextsCreated (onended n s) = contextsCreated s"
  by (simp_all add: onended_def)

lemma step_context:
  "audioContextRef (step e s) = audioContextRef s \<and> contextsCreated (step e s) = contextsCreated s"
  by (cases e) (simp_all add: handleSendMessage_frame handlePlayPause_context onended_context settle_frame)

lemma run_context:
  "audioContextRef (run es s) = audioContextRef s \<and> contextsCreated (run es s) = contextsCreated s"
  by (induction es arbitrary: s) (simp_all add: run_Nil run_Cons step_context)

section \<open>One generation cycle at a time\<close>

lemma resume_loading:
  assumes "resume a reply s = Some (s', Some b)"
  shows "audio (loading s') = audio (loading s)"
  using assms
  by (induction a reply s rule: resume.induct;
      auto simp add: catchBlock_def Let_def split: option.splits if_splits sum.splits prod.splits)+

lemma oneCycle_send: "oneCycle s \<Longrightarrow> oneCycle (handleSendMessage s)"
  by (auto simp add: oneCycle_def handleSendMessage_def isGenerating_def)

lemma oneCycle_settle: "oneCycle s \<Longrightarrow> oneCycle (settle n reply s)"
proof -
  assume inv: "oneCycle s"
  show ?thesis
  proof (cases "n < length (pending s)")
    case False
    then show ?thesis using inv by (simp add: settle_def)
  next
    case True
    then have one: "length (pending s) = 1" "n = 0" "audio (loading s)"
      using inv by (auto simp add: oneCycle_def)
    show ?thesis
    proof (cases "resume (pending s ! n) reply s")
      case None
      then show ?thesis using inv True by (simp add: settle_def)
    next
      case (Some res)
      obtain s' nxt where res: "res = (s', nxt)" by (cases res)
      show ?thesis
      proof (cases nxt)
        case None
        then show ?thesis using Some res True one
          by (simp add: settle_def oneCycle_def)
      next
        case (Some b)
        then have "audio (loading s') = audio (loading s)"
          using \<open>resume (pending s ! n) reply s = Some res\<close> res resume_loading by blast
        then show ?thesis using Some \<open>resume (pending s ! n) reply s = Some res\<close> res True one
          by (simp add: settle_def oneCycle_def)
      qed
    qed
  qed
qed

lemma oneCycle_step: "oneCycle s \<Longrightarrow> oneCycle (step e s)"
proof (cases e)
  case (Change x1)
  assume "oneCycle s" then show ?thesis using Change by (simp add: oneCycle_def)
next
  case Send
  assume "oneCycle s" then show ?thesis using Send by (simp add: oneCycle_send)
next
  case PlayPause
  assume "oneCycle s" then show ?thesis using PlayPause
    by (auto simp add: oneCycle_def handlePlayPause_def stop_def play_def Let_def split: option.splits)
next
  case (Ended n)
  assume "oneCycle s" then show ?thesis using Ended by (simp add: oneCycle_def onended_def)
next
  case (Settle n r)
  assume "oneCycle s" then show ?thesis using Settle by (simp add: oneCycle_settle)
qed

lemma oneCycle_mount: "oneCycle (mount outcome (initialState ai))"
  by (cases outcome) (simp_all add: oneCycle_def mount_def initialState_def)

lemma oneCycle_run: "oneCycle s \<Longrightarrow> oneCycle (run es s)"
  by (rule run_invariant) (simp_all add: oneCycle_step)

lemma generationCycle_blocked:
  "isGenerating (loading s) \<Longrightarrow> generationCycle r s = s"
  by (simp add: generationCycle_def run_def handleSendMessage_def settle_def)

text \<open>
  Claim C7. While any of the three loading flags is true, \<open>handleSendMessage\<close> returns at
  its guard: the state is unchanged, so no message is appended, no flag changes, no call
  is issued and no invocation is suspended, and the whole cycle changes nothing either.
  In every state the mounted component can reach, at most one invocation is suspended,
  and while one is suspended a loading flag is true, so that the guard holds against a
  second one.
\<close>

theorem send_blocked_while_generating:
  "(isGenerating (loading s) \<longrightarrow> handleSendMessage s = s \<and> generationCycle r s = s) \<and>
   length (pending (run events (mount outcome (initialState ai)))) \<le> 1 \<and>
   (pending (run events (mount outcome (initialState ai))) \<noteq> [] \<longrightarrow>
      isGenerating (loading (run events (mount outcome (initialState ai)))))"
proof -
  have "oneCycle (run events (mount outcome (initialState ai)))"
    by (simp add: oneCycle_run oneCycle_mount)
  then show ?thesis
    by (auto simp add: oneCycle_def isGenerating_def generationCycle_blocked handleSendMessage_def)
qed

theorem send_blocked_while_generating_witness:
  "isGenerating (loading (run [Change ''calm'', Send, Change ''more'']
      (mount MountOk (initialState True)))) \<and>
   pending (run [Change ''calm'', Send, Change ''more'']
      (mount MountOk (initialState True))) = [AwaitSendMessage] \<and>
   handleSendMessage (run [Change ''calm'', Send, Change ''more'']
      (mount MountOk (initialState True))) =
     run [Change ''calm'', Send, Change ''more''] (mount MountOk (initialState True)) \<and>
   generationCycle
     \<lparr> scriptReply = Resolved ''Breathe.'', imagePromptReply = Rejected,
       imageReply = Rejected, audioReply = Rejected,
        decodeAudioDataReply = Resolved () \<rparr>
     (run [Change ''calm'', Send, Change ''more''] (mount MountOk (initialState True))) =
     run [Change ''calm'', Send, Change ''more''] (mount MountOk (initialState True))"
proof -
  let ?s = "run [Change ''calm'', Send, Change ''more''] (mount MountOk (initialState True))"
  have g: "isGenerating (loading ?s)"
    by (simp add: eval_defs)
  have p: "pending ?s = [AwaitSendMessage]"
    by (simp add: eval_defs)
  show ?thesis
    using g p
      send_blocked_while_generating [of ?s
        "\<lparr> scriptReply = Resolved ''Breathe.'', imagePromptReply = Rejected,
           imageReply = Rejected, audioReply = Rejected,
        decodeAudioDataReply = Resolved () \<rparr>"
        "[Change ''calm'', Send, Change ''more'']" MountOk True]
    by simp
qed

section \<open>The audio context\<close>

text \<open>
  Claim C8, as amended. The audio context is constructed at most once, by the mount
  effect: once, with a sample rate of 24000, when its \<open>try\<close> block runs to the
  end, and not at all when the block throws first. No later event replaces the context
  or constructs another one.
\<close>

theorem audio_context_created_at_most_once:
  "audioContextRef (run events (mount outcome (initialState ai))) =
     audioContextRef (mount outcome (initialState ai)) \<and>
   contextsCreated (run events (mount outcome (initialState ai))) =
     (if outcome = MountOk then 1 else 0) \<and>
   audioContextRef (mount outcome (initialState ai)) =
     (if outcome = MountOk then Some \<lparr> contextId = 0, contextSampleRate = 24000 \<rparr> else None)"
  by (cases outcome) (simp_all add: run_context mount_def initialState_def)

text \<open>A run after a mount that succeeded: one context, at 24000 Hz.\<close>

theorem audio_context_created_at_most_once_witness:
  "contextsCreated (run [Change ''calm'', Send, PlayPause] (mount MountOk (initialState True))) = 1 \<and>
   audioContextRef (run [Change ''calm'', Send, PlayPause] (mount MountOk (initialState True))) =
     Some \<lparr> contextId = 0, contextSampleRate = 24000 \<rparr>"
  using audio_context_created_at_most_once [of "[Change ''calm'', Send, PlayPause]" MountOk True]
  by simp

text \<open>
  Claim C8 as stated fails when the construction of the provider client throws in the
  mount effect: the \<open>catch\<close> block is entered before line 34 and no audio context is
  ever created.
\<close>

theorem audio_context_never_created:
  "contextsCreated (run [Change ''calm'', Send, PlayPause]
      (mount GoogleGenAIThrows (initialState True))) = 0 \<and>
   audioContextRef (run [Change ''calm'', Send, PlayPause]
      (mount GoogleGenAIThrows (initialState True))) = None"
  by (simp add: eval_defs)

section \<open>The play control\<close>

text \<open>
  Claim C9. Without an audio context or without an audio buffer, \<open>handlePlayPause\<close>
  returns at line 99: the state is unchanged, no source node is created or stopped and
  nothing is read from the missing object.
\<close>

theorem play_pause_guard:
  "audioContextRef s = None \<or> audioBuffer s = None \<Longrightarrow> handlePlayPause s = s"
  by (auto simp add: handlePlayPause_def split: option.splits)

theorem play_pause_guard_witness:
  "audioBuffer (mount MountOk (initialState True)) = None \<and>
   audioContextRef (mount MountOk (initialState True)) \<noteq> None \<and>
   handlePlayPause (mount MountOk (initialState True)) = mount MountOk (initialState True) \<and>
   audioContextRef (mount AudioContextThrows (initialState True)) = None \<and>
   handlePlayPause (mount AudioContextThrows (initialState True)) =
     mount AudioContextThrows (initialState True)"
proof -
  have b: "audioBuffer (mount MountOk (initialState True)) = None"
    and c: "audioContextRef (mount MountOk (initialState True)) \<noteq> None"
    and n: "audioContextRef (mount AudioContextThrows (initialState True)) = None"
    by (simp_all add: mount_def initialState_def)
  show ?thesis
    using b c n play_pause_guard [of "mount MountOk (initialState True)"]
      play_pause_guard [of "mount AudioContextThrows (initialState True)"]
    by simp
qed

lemma run_sources_send_settle:
  "sources (generationCycle r s) = sources s \<and> audioLog (generationCycle r s) = audioLog s"
  by (simp add: generationCycle_def run_def Let_def settle_frame handleSendMessage_frame)

text \<open>
  Claim C10. When its guard passes, \<open>handleSendMessage\<close> clears the stored audio buffer
  and the playing flag before its first await, and neither this part nor the rest of the
  cycle touches a source node: no \<open>stop()\<close> is logged, every source node is as it was,
  and a node that was playing is still playing while \<open>isPlaying\<close> is false.
\<close>

theorem send_leaves_source_playing:
  "trim (userInput s) \<noteq> [] \<and> chat s \<noteq> None \<and> \<not> isGenerating (loading s) \<Longrightarrow>
     audioBuffer (handleSendMessage s) = None \<and>
     \<not> isPlaying (handleSendMessage s) \<and>
     pending (handleSendMessage s) = pending s @ [AwaitSendMessage] \<and>
     sources (handleSendMessage s) = sources s \<and>
     audioLog (handleSendMessage s) = audioLog s \<and>
     activeSessions (handleSendMessage s) = activeSessions s \<and>
     sources (generationCycle r s) = sources s \<and>
     audioLog (generationCycle r s) = audioLog s"
  by (simp add: run_sources_send_settle handleSendMessage_frame activeSessions_def)
     (simp add: handleSendMessage_def)

theorem send_leaves_source_playing_witness:
  "isPlaying (run [Change ''calm'', Send,
             Settle 0 (SendMessageReply (Resolved ''Breathe.'')),
             Settle 0 (ImagePromptReply Rejected),
             Settle 0 (MeditationAudioReply (Resolved (Some ''AIA=''))),
             Settle 0 (DecodeAudioDataReply (Resolved ())),
             PlayPause, Change ''focus'']
          (mount MountOk (initialState True))) \<and>
   activeSessions (run [Change ''calm'', Send,
             Settle 0 (SendMessageReply (Resolved ''Breathe.'')),
             Settle 0 (ImagePromptReply Rejected),
             Settle 0 (MeditationAudioReply (Resolved (Some ''AIA=''))),
             Settle 0 (DecodeAudioDataReply (Resolved ())),
             PlayPause, Change ''focus'', Send]
          (mount MountOk (initialState True))) = [0] \<and>
   \<not> isPlaying (run [Change ''calm'', Send,
             Settle 0 (SendMessageReply (Resolved ''Breathe.'')),
             Settle 0 (ImagePromptReply Rejected),
             Settle 0 (MeditationAudioReply (Resolved (Some ''AIA=''))),
             Settle 0 (DecodeAudioDataReply (Resolved ())),
             PlayPause, Change ''focus'', Send]
          (mount MountOk (initialState True)))"
proof -
  let ?s = "run [Change ''calm'', Send,
             Settle 0 (SendMessageReply (Resolved ''Breathe.'')),
             Settle 0 (ImagePromptReply Rejected),
             Settle 0 (MeditationAudioReply (Resolved (Some ''AIA=''))),
             Settle 0 (DecodeAudioDataReply (Resolved ())),
             PlayPause, Change ''focus'']
          (mount MountOk (initialState True))"
  have r: "run [Change ''calm'', Send,
             Settle 0 (SendMessageReply (Resolved ''Breathe.'')),
             Settle 0 (ImagePromptReply Rejected),
             Settle 0 (MeditationAudioReply (Resolved (Some ''AIA=''))),
             Settle 0 (DecodeAudioDataReply (Resolved ())),
             PlayPause, Change ''focus'', Send]
          (mount MountOk (initialState True)) = handleSendMessage ?s"
    by (simp add: run_def)
  have p: "isPlaying ?s" by (simp add: eval_defs)
  have a: "activeSessions ?s = [0]" by (simp add: eval_defs activeSessions_def)
  have g: "trim (userInput ?s) \<noteq> [] \<and> chat ?s \<noteq> None \<and> \<not> isGenerating (loading ?s)"
    by (simp add: eval_defs)
  show ?thesis
    using send_leaves_source_playing [OF g] p a by (simp only: r) simp
qed

lemma ready_toggle: "ready s \<Longrightarrow> ready (handlePlayPause s)"
  by (auto simp add: ready_def handlePlayPause_def stop_def play_def Let_def)

lemma ready_flips: "ready s \<Longrightarrow> isPlaying (handlePlayPause s) = (\<not> isPlaying s)"
  by (auto simp add: ready_def handlePlayPause_def stop_def play_def Let_def)

lemma ready_play:
  "ready s \<Longrightarrow> audioBuffer s = Some buf \<Longrightarrow> \<not> isPlaying s \<Longrightarrow> handlePlayPause s = play buf s"
  by (auto simp add: ready_def handlePlayPause_def)

lemma ready_stop:
  "ready s \<Longrightarrow> isPlaying s \<Longrightarrow> handlePlayPause s = stop s"
  by (auto simp add: ready_def handlePlayPause_def)

lemma ready_stop_log:
  "ready s \<Longrightarrow> isPlaying s \<Longrightarrow> audioSourceRef s = Some n \<Longrightarrow>
     audioLog (stop s) = audioLog s @ [Stop n] \<and> \<not> playing (sources (stop s) ! n)"
  by (auto simp add: ready_def stop_def Let_def)

text \<open>What holds of the references in every reachable state.\<close>

lemma resume_decode_needs_context:
  assumes "resume a reply s = Some (s', Some (AwaitDecodeAudioData d))"
  shows "audioContextRef s \<noteq> None"
  using assms
  by (induction a reply s rule: resume.induct;
      auto simp add: catchBlock_def Let_def split: option.splits if_splits sum.splits prod.splits)+

lemma resume_audioBuffer:
  assumes "resume a reply s = Some (s', nxt)" "audioBuffer s' \<noteq> audioBuffer s"
  shows "\<exists>d. a = AwaitDecodeAudioData d"
  using assms
  by (induction a reply s rule: resume.induct;
      auto simp add: catchBlock_def Let_def split: option.splits if_splits sum.splits prod.splits)+

lemma wired_settle: "wired s \<Longrightarrow> wired (settle n reply s)"
proof -
  assume w: "wired s"
  show ?thesis
  proof (cases "n < length (pending s)")
    case False
    then show ?thesis using w by (simp add: settle_def)
  next
    case True
    show ?thesis
    proof (cases "resume (pending s ! n) reply s")
      case None
      then show ?thesis using w True by (simp add: settle_def)
    next
      case (Some res)
      obtain s' nxt where res: "res = (s', nxt)" by (cases res)
      have R: "resume (pending s ! n) reply s = Some (s', nxt)" using Some res by simp
      note fr = resume_frame [OF R]
      have buf: "audioBuffer s' \<noteq> None \<longrightarrow> audioContextRef s \<noteq> None"
      proof
        assume b: "audioBuffer s' \<noteq> None"
        show "audioContextRef s \<noteq> None"
        proof (cases "audioBuffer s' = audioBuffer s")
          case True
          then show ?thesis using b w by (simp add: wired_def)
        next
          case False
          then obtain d where "pending s ! n = AwaitDecodeAudioData d"
            using R resume_audioBuffer by blast
          then have "AwaitDecodeAudioData d \<in> set (pending s)"
            using \<open>n < length (pending s)\<close> nth_mem by metis
          then show ?thesis using w by (auto simp add: wired_def)
        qed
      qed
      show ?thesis
      proof (cases nxt)
        case None
        have "set (take n (pending s) @ drop (Suc n) (pending s)) \<subseteq> set (pending s)"
          using set_take_subset set_drop_subset by (metis Un_least set_append)
        then show ?thesis using w R None True fr buf
          by (auto simp add: settle_def wired_def)
      next
        case (Some b)
        have sub: "set ((pending s)[n := b]) \<subseteq> insert b (set (pending s))"
          by (rule set_update_subset_insert)
        have "\<And>d. b = AwaitDecodeAudioData d \<Longrightarrow> audioContextRef s \<noteq> None"
          using R Some resume_decode_needs_context by blast
        then show ?thesis using w R Some True fr buf sub
          by (auto simp add: settle_def wired_def)
      qed
    qed
  qed
qed

lemma wired_step: "wired s \<Longrightarrow> wired (step e s)"
proof (cases e)
  case (Change x1)
  assume "wired s" then show ?thesis using Change by (simp add: wired_def)
next
  case Send
  assume "wired s" then show ?thesis using Send
    by (auto simp add: wired_def handleSendMessage_def)
next
  case PlayPause
  assume "wired s" then show ?thesis using PlayPause
    by (auto simp add: wired_def handlePlayPause_def stop_def play_def Let_def split: option.splits)
next
  case (Ended n)
  assume "wired s" then show ?thesis using Ended by (auto simp add: wired_def onended_def)
next
  case (Settle n r)
  assume "wired s" then show ?thesis using Settle by (simp add: wired_settle)
qed

lemma wired_mount: "wired (mount outcome (initialState ai))"
  by (cases outcome) (simp_all add: wired_def mount_def initialState_def)

lemma wired_run: "wired (run events (mount outcome (initialState ai)))"
  by (rule run_invariant) (simp_all add: wired_mount wired_step)

lemma wired_ready: "wired s \<Longrightarrow> audioBuffer s \<noteq> None \<Longrightarrow> ready s"
  by (auto simp add: wired_def ready_def)

text \<open>
  With a stored audio buffer, in every reachable state, \<open>handlePlayPause\<close> takes exactly
  one of its two branches and makes exactly one call on a source node: while playing it
  stops the referenced node and leaves the state idle, and a second invocation plays
  again; while idle it creates and starts one new node on the stored buffer. The control
  that invokes the handler is rendered only with a stored buffer (lines 154 to 156).
\<close>

lemma toggle_one_call:
  assumes "s = run events (mount outcome (initialState ai))" and "audioBuffer s = Some buf"
  shows "handlePlayPause s = (if isPlaying s then stop s else play buf s) \<and>
    (isPlaying s \<longrightarrow>
       (\<exists>n. audioSourceRef s = Some n \<and>
            audioLog (handlePlayPause s) = audioLog s @ [Stop n] \<and>
            \<not> playing (sources (handlePlayPause s) ! n)) \<and>
       \<not> isPlaying (handlePlayPause s) \<and>
       isPlaying (handlePlayPause (handlePlayPause s))) \<and>
    (\<not> isPlaying s \<longrightarrow>
       audioLog (handlePlayPause s) = audioLog s @ [Start (length (sources s))] \<and>
       sources (handlePlayPause s) =
         sources s @ [\<lparr> buffer = buf, playing = True, ended = False \<rparr>] \<and>
       audioSourceRef (handlePlayPause s) = Some (length (sources s)) \<and>
       isPlaying (handlePlayPause s))"
proof -
  have r: "ready s"
    using assms wired_run wired_ready by simp
  have r': "ready (handlePlayPause s)"
    using r by (rule ready_toggle)
  have 1: "handlePlayPause s = (if isPlaying s then stop s else play buf s)"
    using r assms(2) by (simp add: ready_play ready_stop)
  have 2: "isPlaying s \<longrightarrow>
       (\<exists>n. audioSourceRef s = Some n \<and>
            audioLog (handlePlayPause s) = audioLog s @ [Stop n] \<and>
            \<not> playing (sources (handlePlayPause s) ! n)) \<and>
       \<not> isPlaying (handlePlayPause s) \<and>
       isPlaying (handlePlayPause (handlePlayPause s))"
  proof
    assume p: "isPlaying s"
    then obtain n where n: "audioSourceRef s = Some n" using r by (auto simp add: ready_def)
    have "audioLog (stop s) = audioLog s @ [Stop n] \<and> \<not> playing (sources (stop s) ! n)"
      using r p n by (rule ready_stop_log)
    moreover have "handlePlayPause s = stop s" using r p by (rule ready_stop)
    moreover have "\<not> isPlaying (handlePlayPause s)" using r p by (simp add: ready_flips)
    moreover have "isPlaying (handlePlayPause (handlePlayPause s))"
      using r r' p by (simp add: ready_flips)
    ultimately show "(\<exists>n. audioSourceRef s = Some n \<and>
            audioLog (handlePlayPause s) = audioLog s @ [Stop n] \<and>
            \<not> playing (sources (handlePlayPause s) ! n)) \<and>
       \<not> isPlaying (handlePlayPause s) \<and>
       isPlaying (handlePlayPause (handlePlayPause s))"
      using n by simp
  qed
  have 3: "\<not> isPlaying s \<longrightarrow>
       audioLog (handlePlayPause s) = audioLog s @ [Start (length (sources s))] \<and>
       sources (handlePlayPause s) =
         sources s @ [\<lparr> buffer = buf, playing = True, ended = False \<rparr>] \<and>
       audioSourceRef (handlePlayPause s) = Some (length (sources s)) \<and>
       isPlaying (handlePlayPause s)"
    using r assms(2) by (auto simp add: ready_play play_def)
  show ?thesis using 1 2 3 by blast
qed

text \<open>
  Claim C2. Two playback sessions are never to be active at once. The run below uses
  only what the rendered page offers: a meditation is generated and played; while source
  node 0 is emitting, a second request is sent, which clears the playing flag and the
  buffer at lines 59 and 60 without stopping the node; when the new buffer has arrived
  the play control finds the flag idle and starts source node 1. At the end both nodes
  are emitting, and no \<open>stop()\<close> was ever called. The branch of \<open>handlePlayPause\<close> for a
  playing state stops the node before it clears the flag (lines 102 and 103);
  \<open>handleSendMessage\<close> clears the flag alone.
\<close>

theorem overlapping_sessions_after_send:
  "activeSessions (run [Change ''calm'', Send,
             Settle 0 (SendMessageReply (Resolved ''Breathe.'')),
             Settle 0 (ImagePromptReply Rejected),
             Settle 0 (MeditationAudioReply (Resolved (Some ''AIA=''))),
             Settle 0 (DecodeAudioDataReply (Resolved ())),
             PlayPause,
             Change ''focus'', Send,
             Settle 0 (SendMessageReply (Resolved ''Listen.'')),
             Settle 0 (ImagePromptReply Rejected),
             Settle 0 (MeditationAudioReply (Resolved (Some ''/38=''))),
             Settle 0 (DecodeAudioDataReply (Resolved ())),
             PlayPause]
          (mount MountOk (initialState True))) = [0, 1] \<and>
   audioLog (run [Change ''calm'', Send,
             Settle 0 (SendMessageReply (Resolved ''Breathe.'')),
             Settle 0 (ImagePromptReply Rejected),
             Settle 0 (MeditationAudioReply (Resolved (Some ''AIA=''))),
             Settle 0 (DecodeAudioDataReply (Resolved ())),
             PlayPause,
             Change ''focus'', Send,
             Settle 0 (SendMessageReply (Resolved ''Listen.'')),
             Settle 0 (ImagePromptReply Rejected),
             Settle 0 (MeditationAudioReply (Resolved (Some ''/38=''))),
             Settle 0 (DecodeAudioDataReply (Resolved ())),
             PlayPause]
          (mount MountOk (initialState True))) = [Start 0, Start 1] \<and>
   isPlaying (run [Change ''calm'', Send,
             Settle 0 (SendMessageReply (Resolved ''Breathe.'')),
             Settle 0 (ImagePromptReply Rejected),
             Settle 0 (MeditationAudioReply (Resolved (Some ''AIA=''))),
             Settle 0 (DecodeAudioDataReply (Resolved ())),
             PlayPause,
             Change ''focus'', Send,
             Settle 0 (SendMessageReply (Resolved ''Listen.'')),
             Settle 0 (ImagePromptReply Rejected),
             Settle 0 (MeditationAudioReply (Resolved (Some ''/38=''))),
             Settle 0 (DecodeAudioDataReply (Resolved ())),
             PlayPause]
          (mount MountOk (initialState True)))"
  by (simp add: eval_defs activeSessions_def)

section \<open>Failures in a generation cycle\<close>

text \<open>The cycle, one await at a time, for the invocation suspended last.\<close>

lemma settle_last:
  "pending t = p @ [a] \<Longrightarrow>
   settle (length p) reply t =
     (case resume a reply t of
        None \<Rightarrow> t
      | Some (t', None) \<Rightarrow> t'\<lparr>pending := p\<rparr>
      | Some (t', Some b) \<Rightarrow> t'\<lparr>pending := p @ [b]\<rparr>)"
  by (simp add: settle_def split: option.splits prod.splits)

lemma settle_beyond: "pending t = p \<Longrightarrow> settle (length p) reply t = t"
  by (simp add: settle_def)

lemma after_script:
  assumes "pending t = p @ [AwaitSendMessage]"
  shows "settle (length p) (SendMessageReply (Resolved scriptText)) t =
     t\<lparr>messages := messages t @ [\<lparr> role = Model, content = scriptText \<rparr>],
       loading := (loading t)\<lparr>script := False\<rparr>,
       calls := calls t @ [GenerateImagePrompt scriptText, GenerateMeditationAudio scriptText],
       pending := p @ [AwaitImagePrompt]\<rparr>"
  by (simp add: settle_last [OF assms])

lemma after_image_prompt:
  assumes "pending t = p @ [AwaitImagePrompt]"
  shows "messages (settle (length p) (ImagePromptReply x) t) = messages t \<and>
    ((pending (settle (length p) (ImagePromptReply x) t) = p @ [AwaitMeditationImage] \<and>
      loading (settle (length p) (ImagePromptReply x) t) = loading t) \<or>
     (pending (settle (length p) (ImagePromptReply x) t) = p @ [AwaitAudio] \<and>
      loading (settle (length p) (ImagePromptReply x) t) = (loading t)\<lparr>image' := False\<rparr>))"
  by (simp add: settle_last [OF assms] split: option.splits)

lemma after_image:
  assumes "pending t = p @ [AwaitMeditationImage]"
  shows "messages (settle (length p) (MeditationImageReply x) t) = messages t \<and>
    pending (settle (length p) (MeditationImageReply x) t) = p @ [AwaitAudio] \<and>
    loading (settle (length p) (MeditationImageReply x) t) = (loading t)\<lparr>image' := False\<rparr>"
  by (simp add: settle_last [OF assms] Let_def split: option.splits)

lemma image_not_awaited:
  assumes "pending t = p @ [AwaitAudio]"
  shows "settle (length p) (MeditationImageReply x) t = t"
  by (simp add: settle_last [OF assms])

lemma after_audio_none:
  assumes "pending t = p @ [AwaitAudio]"
    and "generateMeditationAudio (serviceAi t) x = None \<or> audioContextRef t = None"
  shows "messages (settle (length p) (MeditationAudioReply x) t) = messages t \<and>
    pending (settle (length p) (MeditationAudioReply x) t) = p \<and>
    loading (settle (length p) (MeditationAudioReply x) t) = (loading t)\<lparr>audio := False\<rparr>"
  using assms(2) by (auto simp add: settle_last [OF assms(1)] Let_def split: option.splits)

lemma generateMeditationAudio_truthy: "generateMeditationAudio ai x = Some d \<Longrightarrow> d \<noteq> []"
  by (auto simp add: generateMeditationAudio_def truthy_def split: if_splits Settled.splits option.splits)

lemma after_audio_malformed:
  assumes "pending t = p @ [AwaitAudio]"
    and "generateMeditationAudio (serviceAi t) x = Some d" and "audioContextRef t \<noteq> None"
    and "decode d = Inl MalformedEncodingError"
  shows "messages (settle (length p) (MeditationAudioReply x) t) = messages t @ [errorMessage] \<and>
    pending (settle (length p) (MeditationAudioReply x) t) = p \<and>
    loading (settle (length p) (MeditationAudioReply x) t) =
      \<lparr> script = False, image' = False, audio = False \<rparr>"
  using assms(2-4) generateMeditationAudio_truthy [OF assms(2)]
  by (auto simp add: settle_last [OF assms(1)] Let_def catchBlock_def split: option.splits)

lemma after_audio_decoded:
  assumes "pending t = p @ [AwaitAudio]"
    and "generateMeditationAudio (serviceAi t) x = Some d" and "audioContextRef t \<noteq> None"
    and "decode d = Inr decoded"
  shows "messages (settle (length p) (MeditationAudioReply x) t) = messages t \<and>
    pending (settle (length p) (MeditationAudioReply x) t) = p @ [AwaitDecodeAudioData decoded] \<and>
    loading (settle (length p) (MeditationAudioReply x) t) = loading t"
  using assms(2-4) generateMeditationAudio_truthy [OF assms(2)]
  by (auto simp add: settle_last [OF assms(1)] Let_def split: option.splits)

lemma after_decodeAudioData:
  assumes "pending t = p @ [AwaitDecodeAudioData decoded]"
  shows "messages (settle (length p) (DecodeAudioDataReply (Resolved u)) t) = messages t \<and>
    pending (settle (length p) (DecodeAudioDataReply (Resolved u)) t) = p \<and>
    loading (settle (length p) (DecodeAudioDataReply (Resolved u)) t) =
      (loading t)\<lparr>audio := False\<rparr> \<and>
    audioBuffer (settle (length p) (DecodeAudioDataReply (Resolved u)) t) =
      Some (decodeAudioData decoded 24000 1)"
  by (simp add: settle_last [OF assms])

lemma after_decodeAudioData_rejected:
  assumes "pending t = p @ [AwaitDecodeAudioData decoded]"
  shows "messages (settle (length p) (DecodeAudioDataReply Rejected) t) =
      messages t @ [errorMessage] \<and>
    pending (settle (length p) (DecodeAudioDataReply Rejected) t) = p \<and>
    loading (settle (length p) (DecodeAudioDataReply Rejected) t) =
      \<lparr> script = False, image' = False, audio = False \<rparr>"
  by (simp add: settle_last [OF assms] catchBlock_def)

lemma decode_cases:
  obtains "decode d = Inl MalformedEncodingError" | decoded where "decode d = Inr decoded"
  by (cases "decode d") (auto intro: DecodeError.exhaust)

lemma generationCycle_unfold:
  "generationCycle r s =
     settle (length (pending s)) (DecodeAudioDataReply (decodeAudioDataReply r))
       (settle (length (pending s)) (MeditationAudioReply (audioReply r))
         (settle (length (pending s)) (MeditationImageReply (imageReply r))
           (settle (length (pending s)) (ImagePromptReply (imagePromptReply r))
             (settle (length (pending s)) (SendMessageReply (scriptReply r))
               (handleSendMessage s)))))"
  by (simp add: generationCycle_def run_def Let_def)

text \<open>
  Claim C6, as amended. A cycle whose guard passes ends with all three loading flags
  false and with no invocation left suspended. The generic message is appended once when
  the script call is rejected, and once after the script when decoding the returned audio
  payload fails, be it that \<open>decode\<close> throws or that the promise of \<open>decodeAudioData\<close>
  rejects; a failure of the image prompt, image or audio call is turned into \<open>null\<close> by
  the service function and appends nothing.
\<close>

theorem generation_cycle_failure_handling:
  assumes "trim (userInput s) \<noteq> []" and "chat s \<noteq> None" and "\<not> isGenerating (loading s)"
  shows "loading (generationCycle r s) = \<lparr> script = False, image' = False, audio = False \<rparr> \<and>
    pending (generationCycle r s) = pending s \<and>
    messages (generationCycle r s) =
      messages s @ \<lparr> role = User, content = userInput s \<rparr> #
        (case scriptReply r of
           Rejected \<Rightarrow> [errorMessage]
         | Resolved scriptText \<Rightarrow>
             \<lparr> role = Model, content = scriptText \<rparr> #
               (case generateMeditationAudio (serviceAi s) (audioReply r) of
                  None \<Rightarrow> []
                | Some d \<Rightarrow>
                    (if audioContextRef s \<noteq> None \<and>
                        (decode d = Inl MalformedEncodingError \<or>
                         decodeAudioDataReply r = Rejected)
                     then [errorMessage] else [])))"
proof -
  let ?n = "length (pending s)"
  let ?s1 = "handleSendMessage s"
  have p1: "pending ?s1 = pending s @ [AwaitSendMessage]"
    and m1: "messages ?s1 = messages s @ [\<lparr> role = User, content = userInput s \<rparr>]"
    and l1: "loading ?s1 = \<lparr> script = True, image' = True, audio = True \<rparr>"
    and a1: "serviceAi ?s1 = serviceAi s" and c1: "audioContextRef ?s1 = audioContextRef s"
    using assms by (auto simp add: handleSendMessage_def)
  show ?thesis
  proof (cases "scriptReply r")
    case Rejected
    then show ?thesis
      using m1 l1
      by (simp add: generationCycle_unfold settle_last [OF p1] settle_beyond catchBlock_def)
  next
    case (Resolved scriptText)
    let ?s2 = "settle ?n (SendMessageReply (Resolved scriptText)) ?s1"
    let ?s3 = "settle ?n (ImagePromptReply (imagePromptReply r)) ?s2"
    let ?s4 = "settle ?n (MeditationImageReply (imageReply r)) ?s3"
    let ?s5 = "settle ?n (MeditationAudioReply (audioReply r)) ?s4"
    let ?s6 = "settle ?n (DecodeAudioDataReply (decodeAudioDataReply r)) ?s5"
    let ?shown = "messages s @ [\<lparr> role = User, content = userInput s \<rparr>,
                               \<lparr> role = Model, content = scriptText \<rparr>]"
    have g: "generationCycle r s = ?s6"
      using Resolved by (simp add: generationCycle_unfold)
    have p2: "pending ?s2 = pending s @ [AwaitImagePrompt]"
      and m2: "messages ?s2 = ?shown"
      and l2: "loading ?s2 = \<lparr> script = False, image' = True, audio = True \<rparr>"
      using m1 l1 by (simp_all add: after_script [OF p1])
    have s4: "pending ?s4 = pending s @ [AwaitAudio] \<and> messages ?s4 = ?shown \<and>
        loading ?s4 = \<lparr> script = False, image' = False, audio = True \<rparr>"
    proof -
      note ip = after_image_prompt [OF p2, of "imagePromptReply r"]
      from ip consider
          (img) "pending ?s3 = pending s @ [AwaitMeditationImage]" "loading ?s3 = loading ?s2"
        | (skip) "pending ?s3 = pending s @ [AwaitAudio]"
                 "loading ?s3 = (loading ?s2)\<lparr>image' := False\<rparr>"
        by blast
      then show ?thesis
      proof cases
        case img
        show ?thesis
          using after_image [OF img(1), of "imageReply r"] img(2) ip m2 l2 by simp
      next
        case skip
        show ?thesis
          using image_not_awaited [OF skip(1), of "imageReply r"] skip ip m2 l2 by simp
      qed
    qed
    then have p4: "pending ?s4 = pending s @ [AwaitAudio]" and m4: "messages ?s4 = ?shown"
      and l4: "loading ?s4 = \<lparr> script = False, image' = False, audio = True \<rparr>"
      by simp_all
    have a4: "serviceAi ?s4 = serviceAi s"
      using a1 by (simp add: settle_serviceAi)
    have c4: "audioContextRef ?s4 = audioContextRef s"
      using c1 by (simp add: settle_frame)
    show ?thesis
    proof (cases "generateMeditationAudio (serviceAi s) (audioReply r)")
      case None
      then have "generateMeditationAudio (serviceAi ?s4) (audioReply r) = None \<or>
          audioContextRef ?s4 = None"
        using a4 by simp
      note s5 = after_audio_none [OF p4 this]
      then have "?s6 = ?s5" by (simp add: settle_beyond)
      then show ?thesis using s5 g m4 l4 Resolved None by simp
    next
      case (Some d)
      then have d4: "generateMeditationAudio (serviceAi ?s4) (audioReply r) = Some d"
        using a4 by simp
      show ?thesis
      proof (cases "audioContextRef s")
        case None
        then have "generateMeditationAudio (serviceAi ?s4) (audioReply r) = None \<or>
            audioContextRef ?s4 = None"
          using c4 by simp
        note s5 = after_audio_none [OF p4 this]
        then have "?s6 = ?s5" by (simp add: settle_beyond)
        then show ?thesis using s5 g m4 l4 Resolved Some None by simp
      next
        case (Some ctx)
        then have ctx4: "audioContextRef ?s4 \<noteq> None" using c4 by simp
        show ?thesis
        proof (cases d rule: decode_cases)
          case 1
          note s5 = after_audio_malformed [OF p4 d4 ctx4 1]
          then have "?s6 = ?s5" by (simp add: settle_beyond)
          then show ?thesis
            using s5 g m4 l4 Resolved \<open>generateMeditationAudio (serviceAi s) (audioReply r) = Some d\<close> Some 1
            by simp
        next
          case (2 decoded)
          note s5 = after_audio_decoded [OF p4 d4 ctx4 2]
          then have p5: "pending ?s5 = pending s @ [AwaitDecodeAudioData decoded]" by simp
          show ?thesis
          proof (cases "decodeAudioDataReply r")
            case Rejected
            note s6 = after_decodeAudioData_rejected [OF p5]
            show ?thesis
              using s5 s6 g m4 l4 Resolved \<open>generateMeditationAudio (serviceAi s) (audioReply r) = Some d\<close> Some 2 Rejected
              by simp
          next
            case (Resolved u)
            note s6 = after_decodeAudioData [OF p5, of u]
            show ?thesis
              using s5 s6 g m4 l4 \<open>scriptReply r = Resolved scriptText\<close> \<open>generateMeditationAudio (serviceAi s) (audioReply r) = Some d\<close> Some 2 Resolved
              by simp
          qed
        qed
      qed
    qed
  qed
qed

theorem generation_cycle_failure_handling_witness:
  "messages (generationCycle
      \<lparr> scriptReply = Resolved ''Breathe.'', imagePromptReply = Rejected,
        imageReply = Rejected, audioReply = Resolved (Some ''A*A=''),
        decodeAudioDataReply = Resolved () \<rparr>
      (run [Change ''calm''] (mount MountOk (initialState True)))) =
     [welcomeMessage, \<lparr> role = User, content = ''calm'' \<rparr>,
      \<lparr> role = Model, content = ''Breathe.'' \<rparr>, errorMessage] \<and>
   loading (generationCycle
      \<lparr> scriptReply = Resolved ''Breathe.'', imagePromptReply = Rejected,
        imageReply = Rejected, audioReply = Resolved (Some ''A*A=''),
        decodeAudioDataReply = Resolved () \<rparr>
      (run [Change ''calm''] (mount MountOk (initialState True)))) =
     \<lparr> script = False, image' = False, audio = False \<rparr> \<and>
   messages (generationCycle
      \<lparr> scriptReply = Resolved ''Breathe.'', imagePromptReply = Rejected,
        imageReply = Rejected, audioReply = Resolved (Some ''AIA=''),
        decodeAudioDataReply = Rejected \<rparr>
      (run [Change ''calm''] (mount MountOk (initialState True)))) =
     [welcomeMessage, \<lparr> role = User, content = ''calm'' \<rparr>,
      \<lparr> role = Model, content = ''Breathe.'' \<rparr>, errorMessage] \<and>
   messages (generationCycle
      \<lparr> scriptReply = Resolved ''Breathe.'', imagePromptReply = Rejected,
        imageReply = Rejected, audioReply = Resolved (Some ''AIA=''),
        decodeAudioDataReply = Resolved () \<rparr>
      (run [Change ''calm''] (mount MountOk (initialState True)))) =
     [welcomeMessage, \<lparr> role = User, content = ''calm'' \<rparr>,
      \<lparr> role = Model, content = ''Breathe.'' \<rparr>] \<and>
   messages (generationCycle
      \<lparr> scriptReply = Rejected, imagePromptReply = Rejected,
        imageReply = Rejected, audioReply = Rejected,
        decodeAudioDataReply = Resolved () \<rparr>
      (run [Change ''calm''] (mount MountOk (initialState True)))) =
     [welcomeMessage, \<lparr> role = User, content = ''calm'' \<rparr>, errorMessage]"
proof -
  let ?s = "run [Change ''calm''] (mount MountOk (initialState True))"
  have g: "trim (userInput ?s) \<noteq> []" "chat ?s \<noteq> None" "\<not> isGenerating (loading ?s)"
    by (simp_all add: eval_defs)
  have s: "messages ?s = [welcomeMessage]" "userInput ?s = ''calm''" "serviceAi ?s"
    "audioContextRef ?s \<noteq> None"
    by (simp_all add: eval_defs)
  have d: "decode ''A*A='' = Inl MalformedEncodingError" "decode ''AIA='' = Inr [0x00, 0x80]"
    by (simp_all add: sextet_def alphabet_def pad_def byte1_def byte2_def)
  show ?thesis
    using generation_cycle_failure_handling [OF g,
        of "\<lparr> scriptReply = Resolved ''Breathe.'', imagePromptReply = Rejected,
              imageReply = Rejected, audioReply = Resolved (Some ''A*A=''),
              decodeAudioDataReply = Resolved () \<rparr>"]
      generation_cycle_failure_handling [OF g,
        of "\<lparr> scriptReply = Resolved ''Breathe.'', imagePromptReply = Rejected,
              imageReply = Rejected, audioReply = Resolved (Some ''AIA=''),
              decodeAudioDataReply = Rejected \<rparr>"]
      generation_cycle_failure_handling [OF g,
        of "\<lparr> scriptReply = Resolved ''Breathe.'', imagePromptReply = Rejected,
              imageReply = Rejected, audioReply = Resolved (Some ''AIA=''),
              decodeAudioDataReply = Resolved () \<rparr>"]
      generation_cycle_failure_handling [OF g,
        of "\<lparr> scriptReply = Rejected, imagePromptReply = Rejected,
              imageReply = Rejected, audioReply = Rejected,
              decodeAudioDataReply = Resolved () \<rparr>"]
      s d
    by (simp add: generateMeditationAudio_def truthy_def)
qed

text \<open>
  Claim C6 as stated fails when the image prompt call and the audio call are rejected
  after the script call has succeeded: the transcript ends with the script and holds no
  generic message.
\<close>

theorem provider_failure_without_message:
  "messages (generationCycle
      \<lparr> scriptReply = Resolved ''Breathe.'', imagePromptReply = Rejected,
        imageReply = Rejected, audioReply = Rejected,
        decodeAudioDataReply = Resolved () \<rparr>
      (run [Change ''calm''] (mount MountOk (initialState True)))) =
     [welcomeMessage, \<lparr> role = User, content = ''calm'' \<rparr>,
      \<lparr> role = Model, content = ''Breathe.'' \<rparr>] \<and>
   errorMessage \<notin> set (messages (generationCycle
      \<lparr> scriptReply = Resolved ''Breathe.'', imagePromptReply = Rejected,
        imageReply = Rejected, audioReply = Rejected,
        decodeAudioDataReply = Resolved () \<rparr>
      (run [Change ''calm''] (mount MountOk (initialState True)))))"
proof -
  have m: "messages (generationCycle
      \<lparr> scriptReply = Resolved ''Breathe.'', imagePromptReply = Rejected,
        imageReply = Rejected, audioReply = Rejected,
        decodeAudioDataReply = Resolved () \<rparr>
      (run [Change ''calm''] (mount MountOk (initialState True)))) =
     [welcomeMessage, \<lparr> role = User, content = ''calm'' \<rparr>,
      \<lparr> role = Model, content = ''Breathe.'' \<rparr>]"
    by (simp add: generationCycle_def eval_defs)
  have e: "errorMessage \<noteq> welcomeMessage" "errorMessage \<noteq> \<lparr> role = User, content = ''calm'' \<rparr>"
    "errorMessage \<noteq> \<lparr> role = Model, content = ''Breathe.'' \<rparr>"
    by (simp_all add: errorMessage_def welcomeMessage_def)
  show ?thesis using e by (simp only: m) simp
qed

end
